theory Spec2Isabelle
  imports Main "HOL-Library.Word" "HOL-Library.Multiset"
begin

section \<open>The runtime's argument handling (runtime/src/arg.c)\<close>

text \<open>
  A C string is a \<open>string\<close>: the bytes before the terminating NUL. A writable buffer
  holding a C string is the same list, in which a byte may be overwritten by NUL for a
  while; \<open>c_str\<close> reads the C string that starts at the beginning of a buffer.
\<close>

definition c_str :: "string \<Rightarrow> string" where
  "c_str buf = takeWhile (\<lambda>c. c \<noteq> CHR 0x00) buf"

text \<open>\<open>strchr(s, c)\<close> of the C library: the offset of the first \<open>c\<close>, or NULL.\<close>

definition strchr :: "string \<Rightarrow> char \<Rightarrow> nat option" where
  "strchr s c = (if c \<in> set s then Some (length (takeWhile (\<lambda>x. x \<noteq> c) s)) else None)"

text \<open>
  \<open>chpl_glom_strings(n, s1, ..., sn)\<close> is declared outside arg.c; as its name and its
  uses say, it returns the concatenation of its string arguments.
\<close>

definition chpl_glom_strings :: "string list \<Rightarrow> string" where
  "chpl_glom_strings ss = concat ss"

definition dquote :: string where
  "dquote = [CHR 0x22]"

subsection \<open>State\<close>

text \<open>
  What arg.c writes to standard output. The tables and banners printed by functions that
  are defined in other files (\<open>printAdditionalHelp\<close>, \<open>printConfigVarTable\<close>,
  \<open>chpl_program_about\<close>) are recorded as events.
\<close>

datatype out_event = Stdout string | AdditionalHelp | ConfigVarTable | ProgramAbout

datatype errno = EINVAL | ENOMEM

text \<open>
  The globals that arg.c reads and writes. \<open>gdbFlag\<close>, \<open>blockreport\<close>, \<open>taskreport\<close>
  and \<open>argNumLocales\<close> (\<open>_argNumLocales\<close>) are defined in arg.c with initial value 0;
  \<open>verbosity\<close> is defined elsewhere. \<open>errmsg\<close> is the static buffer of
  \<open>defineEnvVar\<close>, \<open>environ\<close> the process environment, \<open>main_arg\<close> the entries
  \<open>chpl_gen_main_arg.argv[0 .. chpl_gen_main_arg.argc - 1]\<close> handed to the program's
  main, and \<open>cfg\<close> the state owned by the configuration-variable code (config.c), which
  is not part of arg.c.
\<close>

record 'c rt_state =
  gdbFlag :: nat
  blockreport :: "32 word"
  taskreport :: "32 word"
  verbosity :: int
  argNumLocales :: "32 word"
  errmsg :: string
  environ :: "string \<rightharpoonup> string"
  out :: "out_event list"
  main_arg :: "string list"
  cfg :: 'c

definition init_state :: "int \<Rightarrow> (string \<rightharpoonup> string) \<Rightarrow> string list \<Rightarrow> 'c \<Rightarrow> 'c rt_state" where
  "init_state v env margs c =
     \<lparr> gdbFlag = 0, blockreport = 0, taskreport = 0, verbosity = v, argNumLocales = 0,
       errmsg = [], environ = env, out = [], main_arg = margs, cfg = c \<rparr>"

text \<open>
  How a call ends: it returns, or the process exits through \<open>chpl_exit_any(status)\<close>,
  or \<open>chpl_error(message, lineno, filename)\<close> is called. \<open>chpl_error\<close> is defined
  outside arg.c; every caller in arg.c relies on it not returning (\<open>defineEnvVar\<close>
  writes through \<open>estr_val\<close> right after the NULL test, \<open>parseArgs\<close> reads
  \<open>argv[i]\<close> right after the bound test), so it ends the run. Each outcome carries
  the state of the globals at that moment.
\<close>

datatype 's outcome = Returned 's | Exited int 's | Fatal string nat string 's

definition chpl_error :: "string \<Rightarrow> nat \<Rightarrow> string \<Rightarrow> 's \<Rightarrow> 's outcome" where
  "chpl_error message lineno filename s = Fatal message lineno filename s"

fun final_state :: "'s outcome \<Rightarrow> 's" where
  "final_state (Returned s) = s"
| "final_state (Exited n s) = s"
| "final_state (Fatal m l f s) = s"

text \<open>
  The functions that arg.c calls and that are defined in other files are parameters of
  the model. The helpers of the configuration code return the number of further
  arguments they consumed, or end the run through \<open>chpl_error\<close> (\<open>Inl\<close>); they act on
  the program's argument vector and on \<open>cfg\<close>. \<open>enomem name\<close> says whether the C
  library runs out of memory when \<open>setenv\<close> has to store \<open>name\<close>.
\<close>

type_synonym chpl_err = "string \<times> nat \<times> string"

record 'c hooks =
  mainHasArgs :: bool
  c_string_to_int32_t_precise :: "string \<Rightarrow> 32 word \<times> bool \<times> char"
  handlePossibleConfigVar ::
    "string list \<Rightarrow> nat \<Rightarrow> nat \<Rightarrow> string \<Rightarrow> string list \<times> 'c \<Rightarrow> chpl_err + nat \<times> string list \<times> 'c"
  handleNonstandardArg ::
    "string list \<Rightarrow> nat \<Rightarrow> nat \<Rightarrow> string \<Rightarrow> string list \<times> 'c \<Rightarrow> chpl_err + nat \<times> string list \<times> 'c"
  parseConfigFile :: "string \<Rightarrow> nat \<Rightarrow> string \<Rightarrow> 'c \<Rightarrow> chpl_err + 'c"
  initSetValue :: "string \<Rightarrow> string \<Rightarrow> string \<Rightarrow> nat \<Rightarrow> string \<Rightarrow> 'c \<Rightarrow> chpl_err + 'c"
  enomem :: "string \<Rightarrow> bool"

subsection \<open>parseNumLocales and getArgNumLocales\<close>

definition parseNumLocales ::
  "'c hooks \<Rightarrow> string \<Rightarrow> nat \<Rightarrow> string \<Rightarrow> 'c rt_state \<Rightarrow> 'c rt_state outcome + 'c rt_state" where
  "parseNumLocales h numPtr lineno filename s =
     (case c_string_to_int32_t_precise h numPtr of (v, invalid, invalidCh) \<Rightarrow>
        let s1 = s\<lparr>argNumLocales := v\<rparr> in
        if invalid then
          Inl (chpl_error (chpl_glom_strings [dquote, numPtr, dquote @ '' is not a valid number of locales''])
                 lineno filename s1)
        else if sint (argNumLocales s1) < 1 then
          Inl (chpl_error ''Number of locales must be greater than 0'' lineno filename s1)
        else Inr s1)"

definition getArgNumLocales :: "'c rt_state \<Rightarrow> 32 word" where
  "getArgNumLocales s =
     (let retval = 0 in if argNumLocales s \<noteq> 0 then argNumLocales s else retval)"

subsection \<open>defineEnvVar\<close>

text \<open>
  \<open>setenv(name, value, overwrite)\<close> of the C library: it fails with EINVAL on an empty
  name or a name holding \<open>=\<close>, leaves a variable that exists alone when \<open>overwrite\<close>
  is 0, and fails with ENOMEM when it cannot allocate.
\<close>

definition setenv ::
  "(string \<Rightarrow> bool) \<Rightarrow> (string \<rightharpoonup> string) \<Rightarrow> string \<Rightarrow> string \<Rightarrow> int
     \<Rightarrow> int \<times> errno option \<times> (string \<rightharpoonup> string)" where
  "setenv nomem env name val overwrite =
     (if name = [] \<or> CHR ''='' \<in> set name then (- 1, Some EINVAL, env)
      else if env name \<noteq> None \<and> overwrite = 0 then (0, None, env)
      else if nomem name then (- 1, Some ENOMEM, env)
      else (0, None, env(name \<mapsto> val)))"

fun strerror :: "errno option \<Rightarrow> string" where
  "strerror (Some EINVAL) = ''Invalid argument''"
| "strerror (Some ENOMEM) = ''Cannot allocate memory''"
| "strerror None = ''Success''"

text \<open>
  \<open>defineEnvVar\<close> gets a writable buffer \<open>estr\<close>. It returns the buffer as it leaves
  it, with the new state.
\<close>

definition defineEnvVar ::
  "'c hooks \<Rightarrow> string \<Rightarrow> nat \<Rightarrow> string \<Rightarrow> 'c rt_state
     \<Rightarrow> 'c rt_state outcome + string \<times> 'c rt_state" where
  "defineEnvVar h estr lineno filename s =
     (case strchr estr CHR ''='' of
        None \<Rightarrow> Inl (chpl_error ''-E argument must be of the form name=value'' lineno filename s)
      | Some k \<Rightarrow>
          let buf = estr[k := CHR 0x00] in
          (case setenv (enomem h) (environ s) (c_str buf) (c_str (drop (k + 1) buf)) 0 of
             (rc, eno, env') \<Rightarrow>
               let s1 = s\<lparr>environ := env'\<rparr>;
                   s2 = (if rc \<noteq> 0 then
                           s1\<lparr>errmsg := take 999 (''Cannot setenv('' @ dquote @ c_str buf @ dquote
                                                    @ ''): '' @ strerror eno)\<rparr>
                         else s1)
               in Inr (buf[k := CHR ''=''], s2)))"

subsection \<open>printHelpTable\<close>

definition nl :: string where
  "nl = [CHR 0x0A]"

definition flagList :: "(string \<times> string \<times> char) list" where
  "flagList =
     [(''-h, --help'', ''print this message'', CHR ''g''),
      (''-a, --about'', ''print compilation information'', CHR ''g''),
      (''-nl <n>'', ''run program using n locales'', CHR ''g''),
      ([], ''(equivalent to setting the numLocales config const)'', CHR ''g''),
      (''-q, --quiet'', ''run program in quiet mode'', CHR ''g''),
      (''-v, --verbose'', ''run program in verbose mode'', CHR ''g''),
      (''-b, --blockreport'', ''report location of blocked threads on SIGINT'', CHR ''g''),
      (''-t, --taskreport'', ''report list of pending and executing tasks on SIGINT'', CHR ''g''),
      (''--gdb'', ''run program in gdb'', CHR ''g''),
      (''-E<name=value>'', ''set the value of an environment variable'', CHR ''g''),
      (''-s, --<cfgVar>=<val>'', ''set the value of a config var'', CHR ''c''),
      (''-f<filename>'', ''read in a file of config var assignments'', CHR ''c'')]"

definition printHeaders :: "char \<Rightarrow> char \<Rightarrow> out_event list \<times> char" where
  "printHeaders thisType lastType =
     (if thisType \<noteq> lastType then
        ([Stdout nl] @
         (if thisType = CHR ''c'' then
            [Stdout (''CONFIG VAR FLAGS:'' @ nl), Stdout (''================='' @ nl)]
          else if thisType = CHR ''g'' then
            [Stdout (''FLAGS:'' @ nl), Stdout (''======'' @ nl)]
          else []),
         thisType)
      else ([], lastType))"

text \<open>The conversion \<open>%-*s\<close> of printf: left-justified in a field of the given width.\<close>

definition pad_left_justified :: "nat \<Rightarrow> string \<Rightarrow> string" where
  "pad_left_justified w s = s @ replicate (w - length s) CHR '' ''"

fun longest :: "(string \<times> string \<times> char) list \<Rightarrow> nat \<Rightarrow> nat" where
  "longest [] longestFlag = longestFlag"
| "longest ((flag, d, t) # fs) longestFlag =
     longest fs (if longestFlag < length flag then length flag else longestFlag)"

fun printRows :: "nat \<Rightarrow> (string \<times> string \<times> char) list \<Rightarrow> char \<Rightarrow> out_event list" where
  "printRows longestFlag [] lastHeaderType = []"
| "printRows longestFlag ((flag, description, headerType) # fs) lastHeaderType =
     (case printHeaders headerType lastHeaderType of (hdr, lastHeaderType') \<Rightarrow>
        hdr @
        [Stdout (if flag = [] then
                   ''  '' @ pad_left_justified longestFlag flag @ ''    '' @ description @ nl
                 else
                   ''  '' @ pad_left_justified longestFlag flag @ ''  : '' @ description @ nl)] @
        printRows longestFlag fs lastHeaderType')"

definition printHelpTable :: "'c rt_state \<Rightarrow> 'c rt_state" where
  "printHelpTable s =
     s\<lparr>out := out s @ [AdditionalHelp] @ printRows (longest flagList 0) flagList (CHR 0x00)
                @ [Stdout nl]\<rparr>"

text \<open>
  The lines that \<open>printHelpTable\<close> writes to stdout after the additional help, as the
  format strings give them for the table above: the longest flag has 20 characters.
\<close>

definition help_table_text :: "out_event list" where
  "help_table_text =
     [Stdout ''\<newline>'',
      Stdout ''FLAGS:\<newline>'',
      Stdout ''======\<newline>'',
      Stdout ''  -h, --help            : print this message\<newline>'',
      Stdout ''  -a, --about           : print compilation information\<newline>'',
      Stdout ''  -nl <n>               : run program using n locales\<newline>'',
      Stdout ''                          (equivalent to setting the numLocales config const)\<newline>'',
      Stdout ''  -q, --quiet           : run program in quiet mode\<newline>'',
      Stdout ''  -v, --verbose         : run program in verbose mode\<newline>'',
      Stdout ''  -b, --blockreport     : report location of blocked threads on SIGINT\<newline>'',
      Stdout ''  -t, --taskreport      : report list of pending and executing tasks on SIGINT\<newline>'',
      Stdout ''  --gdb                 : run program in gdb\<newline>'',
      Stdout ''  -E<name=value>        : set the value of an environment variable\<newline>'',
      Stdout ''\<newline>'',
      Stdout ''CONFIG VAR FLAGS:\<newline>'',
      Stdout ''=================\<newline>'',
      Stdout ''  -s, --<cfgVar>=<val>  : set the value of a config var\<newline>'',
      Stdout ''  -f<filename>          : read in a file of config var assignments\<newline>'',
      Stdout ''\<newline>'']"

subsection \<open>parseArgs\<close>

text \<open>
  The locals of \<open>parseArgs\<close> that live across iterations, with \<open>argv\<close> (which
  \<open>defineEnvVar\<close> writes to) and the globals. \<open>*argc\<close> is the length of \<open>argv\<close>;
  the model takes the helpers of the configuration code as leaving \<open>*argc\<close> and
  \<open>argv\<close> as they are, so that \<open>lineno = i + (origargc - *argc)\<close> is \<open>i\<close>.
\<close>

record 'c locals =
  idx :: nat
  printHelp :: bool
  printAbout :: bool
  stop_parsing :: bool
  argv :: "string list"
  rt :: "'c rt_state"

definition filename_cmdline :: string where
  "filename_cmdline = ''<command-line arg>''"

text \<open>\<open>i += helper(argc, argv, i, lineno, filename)\<close>, followed by the loop's \<open>i++\<close>.\<close>

definition call_helper ::
  "(string list \<Rightarrow> nat \<Rightarrow> nat \<Rightarrow> string \<Rightarrow> string list \<times> 'c \<Rightarrow> chpl_err + nat \<times> string list \<times> 'c)
     \<Rightarrow> 'c locals \<Rightarrow> 'c rt_state outcome + 'c locals" where
  "call_helper f l =
     (case f (argv l) (idx l) (idx l) filename_cmdline (main_arg (rt l), cfg (rt l)) of
        Inl (m, ln, fn) \<Rightarrow> Inl (chpl_error m ln fn (rt l))
      | Inr (k, margs, c) \<Rightarrow>
          Inr (l\<lparr>idx := idx l + k + 1, rt := (rt l)\<lparr>main_arg := margs, cfg := c\<rparr>\<rparr>))"

text \<open>\<open>chpl_gen_main_arg.argv[chpl_gen_main_arg.argc] = a; chpl_gen_main_arg.argc++\<close>.\<close>

definition push_main_arg :: "string \<Rightarrow> 'c rt_state \<Rightarrow> 'c rt_state" where
  "push_main_arg a s = s\<lparr>main_arg := main_arg s @ [a]\<rparr>"

definition next_arg :: "'c locals \<Rightarrow> 'c rt_state \<Rightarrow> 'c locals" where
  "next_arg l s = l\<lparr>idx := idx l + 1, rt := s\<rparr>"

definition not_a_valid_argument :: "string \<Rightarrow> 'c locals \<Rightarrow> 'c rt_state outcome" where
  "not_a_valid_argument currentArg l =
     chpl_error (chpl_glom_strings [dquote, currentArg, dquote @ '' is not a valid argument''])
       (idx l) filename_cmdline (rt l)"

text \<open>The case \<open>'-'\<close> of the inner switch: \<open>flag\<close> is \<open>currentArg + 2\<close>.\<close>

definition long_flag :: "'c hooks \<Rightarrow> string \<Rightarrow> 'c locals \<Rightarrow> 'c rt_state outcome + 'c locals" where
  "long_flag h flag l =
     (let s = rt l in
      if flag = ''gdb'' then Inr (next_arg l (s\<lparr>gdbFlag := idx l\<rparr>))
      else if flag = ''help'' then
        Inr ((next_arg l (push_main_arg ''--help'' s))\<lparr>printHelp := True\<rparr>)
      else if flag = ''about'' then Inr ((next_arg l s)\<lparr>printAbout := True\<rparr>)
      else if flag = ''verbose'' then Inr (next_arg l (s\<lparr>verbosity := 2\<rparr>))
      else if flag = ''blockreport'' then Inr (next_arg l (s\<lparr>blockreport := 1\<rparr>))
      else if flag = ''taskreport'' then Inr (next_arg l (s\<lparr>taskreport := 1\<rparr>))
      else if flag = ''quiet'' then Inr (next_arg l (s\<lparr>verbosity := 0\<rparr>))
      else if length flag + 2 < 3 then Inl (not_a_valid_argument (''--'' @ flag) l)
      else call_helper (handlePossibleConfigVar h) l)"

text \<open>
  The cases \<open>'E'\<close> and \<open>'f'\<close>: the operand is the rest of the argument (\<open>operand\<close>,
  at offset 2 of \<open>argv[i]\<close>) or, when that is empty, the next argument.
\<close>

definition flag_E :: "'c hooks \<Rightarrow> string \<Rightarrow> 'c locals \<Rightarrow> 'c rt_state outcome + 'c locals" where
  "flag_E h operand l =
     (let i = idx l; lineno = idx l in
      if operand = [] then
        (let i = i + 1 in
         if i \<ge> length (argv l) then
           Inl (chpl_error ''-f flag is missing <filename> argument'' lineno filename_cmdline (rt l))
         else
           (case defineEnvVar h (argv l ! i) lineno filename_cmdline (rt l) of
              Inl r \<Rightarrow> Inl r
            | Inr (buf, s) \<Rightarrow> Inr (l\<lparr>idx := i + 1, argv := (argv l)[i := buf], rt := s\<rparr>)))
      else
        (case defineEnvVar h operand lineno filename_cmdline (rt l) of
           Inl r \<Rightarrow> Inl r
         | Inr (buf, s) \<Rightarrow>
             Inr (l\<lparr>idx := i + 1, argv := (argv l)[i := take 2 (argv l ! i) @ buf], rt := s\<rparr>)))"

definition flag_f :: "'c hooks \<Rightarrow> string \<Rightarrow> 'c locals \<Rightarrow> 'c rt_state outcome + 'c locals" where
  "flag_f h operand l =
     (let i = idx l; lineno = idx l in
      if operand = [] then
        (let i = i + 1 in
         if i \<ge> length (argv l) then
           Inl (chpl_error ''-f flag is missing <filename> argument'' lineno filename_cmdline (rt l))
         else
           (case parseConfigFile h (argv l ! i) lineno filename_cmdline (cfg (rt l)) of
              Inl (m, ln, fn) \<Rightarrow> Inl (chpl_error m ln fn (rt l))
            | Inr c \<Rightarrow> Inr (l\<lparr>idx := i + 1, rt := (rt l)\<lparr>cfg := c\<rparr>\<rparr>)))
      else
        (case parseConfigFile h operand lineno filename_cmdline (cfg (rt l)) of
           Inl (m, ln, fn) \<Rightarrow> Inl (chpl_error m ln fn (rt l))
         | Inr c \<Rightarrow> Inr (l\<lparr>idx := i + 1, rt := (rt l)\<lparr>cfg := c\<rparr>\<rparr>)))"

text \<open>The case \<open>'n'\<close>: \<open>rest\<close> is \<open>currentArg + 2\<close>.\<close>

definition flag_n :: "'c hooks \<Rightarrow> string \<Rightarrow> 'c locals \<Rightarrow> 'c rt_state outcome + 'c locals" where
  "flag_n h rest l =
     (let i = idx l; lineno = idx l in
      if rest \<noteq> [] \<and> hd rest = CHR ''l'' then
        (if tl rest = [] then
           (let i = i + 1 in
            if i \<ge> length (argv l) then
              Inl (chpl_error ''-nl flag is missing <numLocales> argument'' lineno filename_cmdline (rt l))
            else
              (case initSetValue h ''numLocales'' (argv l ! i) ''Built-in'' lineno filename_cmdline
                      (cfg (rt l)) of
                 Inl (m, ln, fn) \<Rightarrow> Inl (chpl_error m ln fn (rt l))
               | Inr c \<Rightarrow> Inr (l\<lparr>idx := i + 1, rt := (rt l)\<lparr>cfg := c\<rparr>\<rparr>)))
         else
           (case initSetValue h ''numLocales'' (tl rest) ''Built-in'' lineno filename_cmdline
                   (cfg (rt l)) of
              Inl (m, ln, fn) \<Rightarrow> Inl (chpl_error m ln fn (rt l))
            | Inr c \<Rightarrow> Inr (l\<lparr>idx := i + 1, rt := (rt l)\<lparr>cfg := c\<rparr>\<rparr>)))
      else call_helper (handleNonstandardArg h) l)"

text \<open>
  The inner switch on \<open>currentArg[1]\<close> for the cases other than \<open>'-'\<close>;
  \<open>rest\<close> is \<open>currentArg + 2\<close>, so \<open>currentArg[2] == '\0'\<close> is \<open>rest = []\<close>.
\<close>

definition short_flag ::
  "'c hooks \<Rightarrow> char \<Rightarrow> string \<Rightarrow> 'c locals \<Rightarrow> 'c rt_state outcome + 'c locals" where
  "short_flag h c rest l =
     (let s = rt l in
      if c = CHR ''a'' then
        (if rest = [] then Inr ((next_arg l s)\<lparr>printAbout := True\<rparr>)
         else call_helper (handleNonstandardArg h) l)
      else if c = CHR ''b'' then
        (if rest = [] then Inr (next_arg l (s\<lparr>blockreport := 1\<rparr>))
         else call_helper (handleNonstandardArg h) l)
      else if c = CHR ''E'' then flag_E h rest l
      else if c = CHR ''f'' then flag_f h rest l
      else if c = CHR ''h'' then
        (if rest = [] then Inr ((next_arg l (push_main_arg ''-h'' s))\<lparr>printHelp := True\<rparr>)
         else call_helper (handleNonstandardArg h) l)
      else if c = CHR ''n'' then flag_n h rest l
      else if c = CHR ''q'' then
        (if rest = [] then Inr (next_arg l (s\<lparr>verbosity := 0\<rparr>))
         else call_helper (handleNonstandardArg h) l)
      else if c = CHR ''s'' then
        (if length rest + 2 < 3 then Inl (not_a_valid_argument [CHR ''-'', c] l)
         else call_helper (handlePossibleConfigVar h) l)
      else if c = CHR ''t'' then
        (if rest = [] then Inr (next_arg l (s\<lparr>taskreport := 1\<rparr>))
         else call_helper (handleNonstandardArg h) l)
      else if c = CHR ''v'' then
        (if rest = [] then Inr (next_arg l (s\<lparr>verbosity := 2\<rparr>))
         else call_helper (handleNonstandardArg h) l)
      else call_helper (handleNonstandardArg h) l)"

text \<open>
  One iteration of the loop of \<open>parseArgs\<close>, with the \<open>i++\<close> of its header:
  \<open>Inl\<close> when the run ends in the iteration, \<open>Inr\<close> with the locals for the next
  iteration otherwise. The loop's guard gives \<open>idx l < length (argv l)\<close>.
\<close>

definition parseArg :: "'c hooks \<Rightarrow> 'c locals \<Rightarrow> 'c rt_state outcome + 'c locals" where
  "parseArg h l =
     (let currentArg = argv l ! idx l; argLength = length currentArg in
      if mainHasArgs h \<and> (stop_parsing l \<or> argLength < 2) then
        Inr (next_arg l (push_main_arg currentArg (rt l)))
      else if mainHasArgs h \<and> currentArg = ''--'' then
        Inr ((next_arg l (rt l))\<lparr>stop_parsing := True\<rparr>)
      else if argLength < 2 then Inl (not_a_valid_argument currentArg l)
      else
        (case currentArg of
           c0 # c1 # rest \<Rightarrow>
             if c0 = CHR ''-'' then
               (if c1 = CHR ''-'' then long_flag h rest l else short_flag h c1 rest l)
             else call_helper (handleNonstandardArg h) l
         | _ \<Rightarrow> Inl (not_a_valid_argument currentArg l)))"

text \<open>
  Every iteration that goes on moves \<open>i\<close> forward and leaves \<open>argv\<close> as it was:
  \<open>defineEnvVar\<close> puts the \<open>=\<close> back.
\<close>

lemma first_occurrence:
  "c \<in> set s \<Longrightarrow>
     length (takeWhile (\<lambda>x. x \<noteq> c) s) < length s \<and> s ! length (takeWhile (\<lambda>x. x \<noteq> c) s) = c"
  by (induction s) auto

lemma strchr_Some: "strchr s c = Some k \<Longrightarrow> k < length s \<and> s ! k = c"
  unfolding strchr_def using first_occurrence [of c s]
  by (auto split: if_splits)

lemma defineEnvVar_buf:
  "defineEnvVar h estr lineno filename s = Inr (buf, s') \<Longrightarrow> buf = estr"
  unfolding defineEnvVar_def
  by (auto split: option.splits prod.splits simp: Let_def list_update_same_conv dest!: strchr_Some)

lemma call_helper_progress:
  "call_helper f l = Inr l' \<Longrightarrow> idx l < idx l' \<and> argv l' = argv l"
  unfolding call_helper_def by (auto split: sum.splits prod.splits)

lemma long_flag_progress:
  "long_flag h flag l = Inr l' \<Longrightarrow> idx l < idx l' \<and> argv l' = argv l"
  unfolding long_flag_def next_arg_def Let_def
  by (auto split: if_splits dest: call_helper_progress)

lemma flag_E_progress:
  "flag_E h operand l = Inr l' \<Longrightarrow> idx l < length (argv l) \<Longrightarrow> drop 2 (argv l ! idx l) = operand
    \<Longrightarrow> idx l < idx l' \<and> argv l' = argv l"
  unfolding flag_E_def Let_def
  by (auto split: if_splits sum.splits prod.splits dest!: defineEnvVar_buf)

lemma flag_f_progress:
  "flag_f h operand l = Inr l' \<Longrightarrow> idx l < idx l' \<and> argv l' = argv l"
  unfolding flag_f_def Let_def
  by (auto split: if_splits sum.splits prod.splits)

lemma flag_n_progress:
  "flag_n h rest l = Inr l' \<Longrightarrow> idx l < idx l' \<and> argv l' = argv l"
  unfolding flag_n_def Let_def
  by (auto split: if_splits sum.splits prod.splits dest: call_helper_progress)

lemma short_flag_progress:
  "short_flag h c rest l = Inr l' \<Longrightarrow> idx l < length (argv l) \<Longrightarrow> drop 2 (argv l ! idx l) = rest
    \<Longrightarrow> idx l < idx l' \<and> argv l' = argv l"
  unfolding short_flag_def next_arg_def Let_def
  by (auto split: if_splits dest: call_helper_progress flag_E_progress flag_f_progress flag_n_progress)

lemma parseArg_progress:
  "parseArg h l = Inr l' \<Longrightarrow> idx l < length (argv l) \<Longrightarrow> idx l < idx l' \<and> argv l' = argv l"
  unfolding parseArg_def next_arg_def Let_def
  by (auto split: if_splits list.splits
       dest: call_helper_progress long_flag_progress short_flag_progress)

text \<open>The loop \<open>for (i = 1; i < *argc; i++)\<close>.\<close>

function parseLoop :: "'c hooks \<Rightarrow> 'c locals \<Rightarrow> 'c rt_state outcome + 'c locals" where
  "parseLoop h l =
     (if idx l < length (argv l) then
        (case parseArg h l of Inl r \<Rightarrow> Inl r | Inr l' \<Rightarrow> parseLoop h l')
      else Inr l)"
  by pat_completeness auto
termination
proof (relation "measure (\<lambda>(h, l). length (argv l) - idx l)")
  show "wf (measure (\<lambda>(h, l). length (argv l) - idx l))" by simp
next
  fix h :: "'c hooks" and l l' :: "'c locals"
  assume "idx l < length (argv l)" and "parseArg h l = Inr l'"
  then have "idx l < idx l' \<and> argv l' = argv l" using parseArg_progress by blast
  then show "((h, l'), (h, l)) \<in> measure (\<lambda>(h, l). length (argv l) - idx l)"
    using \<open>idx l < length (argv l)\<close> by auto
qed

declare parseLoop.simps [simp del]

text \<open>
  The states in which the loop begins an iteration, in order: the recursion of
  \<open>parseLoop\<close>, keeping each state it passes instead of the last one only.
\<close>

function iterations :: "'c hooks \<Rightarrow> 'c locals \<Rightarrow> 'c locals list" where
  "iterations h l =
     (if idx l < length (argv l) then
        l # (case parseArg h l of Inl r \<Rightarrow> [] | Inr l' \<Rightarrow> iterations h l')
      else [])"
  by pat_completeness auto
termination
proof (relation "measure (\<lambda>(h, l). length (argv l) - idx l)")
  show "wf (measure (\<lambda>(h, l). length (argv l) - idx l))" by simp
next
  fix h :: "'c hooks" and l l' :: "'c locals"
  assume "idx l < length (argv l)" and "parseArg h l = Inr l'"
  then have "idx l < idx l' \<and> argv l' = argv l" using parseArg_progress by blast
  then show "((h, l'), (h, l)) \<in> measure (\<lambda>(h, l). length (argv l) - idx l)"
    using \<open>idx l < length (argv l)\<close> by auto
qed

declare iterations.simps [simp del]

definition chpl_program_about :: "'c rt_state \<Rightarrow> 'c rt_state" where
  "chpl_program_about s = s\<lparr>out := out s @ [ProgramAbout]\<rparr>"

definition printConfigVarTable :: "'c rt_state \<Rightarrow> 'c rt_state" where
  "printConfigVarTable s = s\<lparr>out := out s @ [ConfigVarTable]\<rparr>"

definition start_locals :: "string list \<Rightarrow> 'c rt_state \<Rightarrow> 'c locals" where
  "start_locals av s =
     \<lparr> idx = 1, printHelp = False, printAbout = False, stop_parsing = False, argv = av, rt = s \<rparr>"

definition parseArgs :: "'c hooks \<Rightarrow> string list \<Rightarrow> 'c rt_state \<Rightarrow> 'c rt_state outcome" where
  "parseArgs h av s =
     (case parseLoop h (start_locals av s) of
        Inl r \<Rightarrow> r
      | Inr l \<Rightarrow>
          if printAbout l then Exited 0 (chpl_program_about (rt l))
          else if printHelp l \<and> \<not> mainHasArgs h then
            Exited 0 (printConfigVarTable (printHelpTable (rt l)))
          else Returned (rt l))"

subsection \<open>The flags, and what one iteration may change\<close>

text \<open>
  The spellings of the report, help and about flags, and \<open>plain_flag\<close>: the flags
  that \<open>parseArgs\<close> handles itself and that take no operand.
\<close>

definition is_blockreport_flag :: "string \<Rightarrow> bool" where
  "is_blockreport_flag a = (a = ''--blockreport'' \<or> a = ''-b'')"

definition is_taskreport_flag :: "string \<Rightarrow> bool" where
  "is_taskreport_flag a = (a = ''--taskreport'' \<or> a = ''-t'')"

definition is_help_flag :: "string \<Rightarrow> bool" where
  "is_help_flag a = (a = ''--help'' \<or> a = ''-h'')"

definition is_about_flag :: "string \<Rightarrow> bool" where
  "is_about_flag a = (a = ''--about'' \<or> a = ''-a'')"

definition plain_flag :: "string \<Rightarrow> bool" where
  "plain_flag a = (a \<in> set [''--gdb'', ''--help'', ''--about'', ''--verbose'', ''--blockreport'',
                            ''--taskreport'', ''--quiet'', ''-a'', ''-b'', ''-h'', ''-q'', ''-t'', ''-v''])"

text \<open>
  \<open>flag_at h P l\<close>: the iteration that begins in \<open>l\<close> parses its argument, rather
  than handing it to the program, and the argument is one of the spellings \<open>P\<close>.
  When main takes arguments, an argument is handed to the program once \<open>--\<close> has been
  seen, or when it has fewer than two characters, which no flag has.
\<close>

definition flag_at :: "'c hooks \<Rightarrow> (string \<Rightarrow> bool) \<Rightarrow> 'c locals \<Rightarrow> bool" where
  "flag_at h P l = (\<not> (mainHasArgs h \<and> stop_parsing l) \<and> P (argv l ! idx l))"





text \<open>
  \<open>step_effect a l l'\<close>: what an iteration on the argument \<open>a\<close> may do to the globals
  and to the locals \<open>printHelp\<close> and \<open>printAbout\<close>; \<open>run_effect l0 l\<close>: the same
  for any number of iterations that start in \<open>l0\<close>.
\<close>

definition step_effect :: "string \<Rightarrow> 'c locals \<Rightarrow> 'c locals \<Rightarrow> bool" where
  "step_effect a l l' \<longleftrightarrow>
     out (rt l') = out (rt l) \<and> environ (rt l) \<subseteq>\<^sub>m environ (rt l')
     \<and> argNumLocales (rt l') = argNumLocales (rt l)
     \<and> (blockreport (rt l') = blockreport (rt l) \<or> blockreport (rt l') = 1 \<and> is_blockreport_flag a)
     \<and> (taskreport (rt l') = taskreport (rt l) \<or> taskreport (rt l') = 1 \<and> is_taskreport_flag a)
     \<and> (printHelp l' = printHelp l \<or> printHelp l' \<and> is_help_flag a)
     \<and> (printAbout l' = printAbout l \<or> printAbout l' \<and> is_about_flag a)"

definition run_effect :: "'c locals \<Rightarrow> 'c locals \<Rightarrow> bool" where
  "run_effect l0 l \<longleftrightarrow>
     argv l = argv l0 \<and> idx l0 \<le> idx l
     \<and> out (rt l) = out (rt l0) \<and> environ (rt l0) \<subseteq>\<^sub>m environ (rt l)
     \<and> argNumLocales (rt l) = argNumLocales (rt l0)
     \<and> (blockreport (rt l) = blockreport (rt l0)
          \<or> blockreport (rt l) = 1 \<and> (\<exists>a \<in> set (drop (idx l0) (argv l0)). is_blockreport_flag a))
     \<and> (taskreport (rt l) = taskreport (rt l0)
          \<or> taskreport (rt l) = 1 \<and> (\<exists>a \<in> set (drop (idx l0) (argv l0)). is_taskreport_flag a))
     \<and> (printHelp l = printHelp l0
          \<or> printHelp l \<and> (\<exists>a \<in> set (drop (idx l0) (argv l0)). is_help_flag a))
     \<and> (printAbout l = printAbout l0
          \<or> printAbout l \<and> (\<exists>a \<in> set (drop (idx l0) (argv l0)). is_about_flag a))"

subsection \<open>Concrete parameters, to run the model\<close>

text \<open>
  A decimal reader in the manner of \<open>strtol\<close>: an optional sign and digits; the input
  is invalid when it is empty or when something follows the digits. The runtime's own
  converter is the parameter \<open>c_string_to_int32_t_precise\<close> above.
\<close>

fun read_digits :: "string \<Rightarrow> int \<Rightarrow> int \<times> string" where
  "read_digits [] acc = (acc, [])"
| "read_digits (c # cs) acc =
     (if (48::nat) \<le> of_char c \<and> of_char c \<le> (57::nat)
      then read_digits cs (10 * acc + (int (of_char c) - 48))
      else (acc, c # cs))"

definition decimal_to_int32 :: "string \<Rightarrow> 32 word \<times> bool \<times> char" where
  "decimal_to_int32 str =
     (let (neg, body) =
            (case str of
               [] \<Rightarrow> (False, [])
             | c # cs \<Rightarrow> if c = CHR ''-'' then (True, cs)
                         else if c = CHR ''+'' then (False, cs) else (False, str))
      in case read_digits body 0 of (n, rest) \<Rightarrow>
           (word_of_int (if neg then - n else n), str = [] \<or> rest \<noteq> [],
            (case rest of [] \<Rightarrow> CHR 0x00 | c # _ \<Rightarrow> c)))"

text \<open>
  Helpers that accept nothing: every argument handed to the configuration code ends the
  run with an error.
\<close>

definition strict_hooks :: "bool \<Rightarrow> (string \<Rightarrow> bool) \<Rightarrow> unit hooks" where
  "strict_hooks mha nomem =
     \<lparr> mainHasArgs = mha,
       c_string_to_int32_t_precise = decimal_to_int32,
       handlePossibleConfigVar = (\<lambda>av i lineno filename st. Inl (''unknown config var'', lineno, filename)),
       handleNonstandardArg = (\<lambda>av i lineno filename st. Inl (''Unexpected flag'', lineno, filename)),
       parseConfigFile = (\<lambda>f lineno filename c. Inl (''Unable to open file'', lineno, filename)),
       initSetValue = (\<lambda>var val m lineno filename c. Inr c),
       enomem = nomem \<rparr>"

definition no_enomem :: "string \<Rightarrow> bool" where
  "no_enomem name = False"

definition always_enomem :: "string \<Rightarrow> bool" where
  "always_enomem name = True"

definition state0 :: "unit rt_state" where
  "state0 = init_state 1 [''HOME'' \<mapsto> ''/root''] [''prog''] ()"

section \<open>Structured task groups and the error aggregator\<close>

text \<open>
  The runtime's task groups are not among the sources at hand: of this part only the test
  test/errhandling/parallel/begin-throws.chpl is, which runs two tasks that both throw
  inside one \<open>sync\<close> block and catches the group error. The definitions of this
  section follow the specification (sections 3, 4.2, 4.4 and 7).
\<close>

type_synonym task = nat

text \<open>
  Modelled from the spec: the states of a Task Descriptor,
  \<open>Runnable \<rightarrow> Running \<rightarrow> {Completed | Failed}\<close>, with \<open>Suspended\<close> while the task
  is blocked; \<open>Completed\<close> and \<open>Failed\<close> are terminal.
\<close>

datatype 'e task_state = Runnable | Running | Suspended | Completed | Failed 'e

fun is_terminal :: "'e task_state \<Rightarrow> bool" where
  "is_terminal Completed = True"
| "is_terminal (Failed e) = True"
| "is_terminal _ = False"

text \<open>Modelled from the spec: the outcome a worker reports for a child that ended.\<close>

datatype 'e child_outcome = Done | Failure 'e

fun terminal_state :: "'e child_outcome \<Rightarrow> 'e task_state" where
  "terminal_state Done = Completed"
| "terminal_state (Failure e) = Failed e"

text \<open>
  Modelled from the spec: the Error Aggregator (4.4). \<open>record\<close> adds an error to the
  sequence, in the order of arrival; \<open>drain\<close> hands the sequence to the joining parent.
\<close>

definition record_error :: "'e \<Rightarrow> 'e list \<Rightarrow> 'e list" where
  "record_error e agg = agg @ [e]"

definition drain :: "'e list \<Rightarrow> 'e list" where
  "drain agg = agg"

text \<open>
  Modelled from the spec: a Structured Task Group holds an expected-child count (fixed,
  or registered one by one when the group was opened unbounded), a completion counter and
  an error list. \<open>members\<close> are the children registered so far, \<open>status\<close> the state of
  their Task Descriptors.
\<close>

record 'e task_group =
  expected :: nat
  unbounded :: bool
  counter :: nat
  errors :: "'e list"
  members :: "task list"
  status :: "task \<rightharpoonup> 'e task_state"

datatype expected_count = Fixed nat | Unbounded

text \<open>Modelled from the spec: \<open>open(expected_count | unbounded)\<close> begins a scope.\<close>

fun open_group :: "expected_count \<Rightarrow> 'e task_group" where
  "open_group (Fixed n) =
     \<lparr> expected = n, unbounded = False, counter = 0, errors = [], members = [],
       status = Map.empty \<rparr>"
| "open_group Unbounded =
     \<lparr> expected = 0, unbounded = True, counter = 0, errors = [], members = [],
       status = Map.empty \<rparr>"

text \<open>
  Modelled from the spec: \<open>register_child(descriptor)\<close> associates a spawned task with
  the group and increments the expected count if the group is unbounded.
\<close>

definition register_child :: "task \<Rightarrow> 'e task_group \<Rightarrow> 'e task_group" where
  "register_child t g =
     g\<lparr> members := members g @ [t],
        status := (status g)(t \<mapsto> Runnable),
        expected := (if unbounded g then expected g + 1 else expected g) \<rparr>"

text \<open>
  Modelled from the spec: \<open>on_child_terminal(task, outcome)\<close> is invoked once per
  child; it increments the completion counter and, if the outcome is a failure, appends
  the error to the Error Aggregator. The calls of concurrent workers are taken one after
  the other, in the order in which they get the lock. A second report for a child that is
  terminal already is a FatalRuntimeError (section 7), and so is a report for a task that
  is no child of the group.
\<close>

datatype runtime_error = FatalRuntimeError

definition on_child_terminal ::
  "task \<Rightarrow> 'e child_outcome \<Rightarrow> 'e task_group \<Rightarrow> runtime_error + 'e task_group" where
  "on_child_terminal t outcome g =
     (case status g t of
        None \<Rightarrow> Inl FatalRuntimeError
      | Some st \<Rightarrow>
          if is_terminal st then Inl FatalRuntimeError
          else
            (let g1 = g\<lparr> status := (status g)(t \<mapsto> terminal_state outcome),
                          counter := counter g + 1 \<rparr>
             in case outcome of
                  Done \<Rightarrow> Inr g1
                | Failure e \<Rightarrow> Inr (g1\<lparr> errors := record_error e (errors g1) \<rparr>)))"

text \<open>
  Modelled from the spec: what happens to a group between its opening and its join. The
  parent spawns children, registering each, and workers report children that ended; a
  child may end before a sibling is spawned. The calls arrive at the group one after the
  other (the reports under the group's lock), so an execution is a list of events, and
  every interleaving is such a list.
\<close>

datatype 'e event = Spawn task | Report task "'e child_outcome"

fun run :: "'e event list \<Rightarrow> 'e task_group \<Rightarrow> runtime_error + 'e task_group" where
  "run [] g = Inr g"
| "run (Spawn t # evs) g = run evs (register_child t g)"
| "run (Report t outcome # evs) g =
     (case on_child_terminal t outcome g of
        Inl err \<Rightarrow> Inl err
      | Inr g' \<Rightarrow> run evs g')"

text \<open>The children spawned in an execution, and the reports, both in order.\<close>

fun spawned :: "'e event list \<Rightarrow> task list" where
  "spawned [] = []"
| "spawned (Spawn t # evs) = t # spawned evs"
| "spawned (Report t outcome # evs) = spawned evs"

fun reports :: "'e event list \<Rightarrow> (task \<times> 'e child_outcome) list" where
  "reports [] = []"
| "reports (Spawn t # evs) = reports evs"
| "reports (Report t outcome # evs) = (t, outcome) # reports evs"

text \<open>
  An execution is orderly when every report is for a child that has been spawned and has
  not reported yet; \<open>live\<close> are the children spawned and not yet terminal.
\<close>

fun orderly :: "'e event list \<Rightarrow> task list \<Rightarrow> bool" where
  "orderly [] live = True"
| "orderly (Spawn t # evs) live = orderly evs (t # live)"
| "orderly (Report t outcome # evs) live = (t \<in> set live \<and> orderly evs (removeAll t live))"

text \<open>
  Modelled from the spec: \<open>join()\<close> keeps the parent suspended until the completion
  counter equals the expected count (\<open>None\<close>: the parent stays suspended); then it
  raises the Error Group if the Error Aggregator is not empty and returns normally
  otherwise.
\<close>

datatype 'e join_result = ReturnsNormally | Raises "'e list"

definition join :: "'e task_group \<Rightarrow> 'e join_result option" where
  "join g =
     (if counter g = expected g then
        (let errs = drain (errors g) in
         Some (if errs = [] then ReturnsNormally else Raises errs))
      else None)"

text \<open>
  Modelled from the spec: what the iteration of the Error Group has to yield, the errors
  of the children that failed, in the order of the reports.
\<close>

fun failures :: "(task \<times> 'e child_outcome) list \<Rightarrow> 'e list" where
  "failures [] = []"
| "failures ((t, Done) # evs) = failures evs"
| "failures ((t, Failure e) # evs) = e # failures evs"

section \<open>Properties of the argument handling\<close>

subsection \<open>The number of locales\<close>

text \<open>
  C8, as the code has it. \<open>parseNumLocales\<close> stores the converted value in
  \<open>_argNumLocales\<close> first and checks it afterwards: when the string is not a valid
  number, or the value is less than 1, \<open>chpl_error\<close> is called and the value stands
  in \<open>_argNumLocales\<close> at that moment. Otherwise the call returns, the value is stored
  and \<open>getArgNumLocales\<close> returns it. On the initial state \<open>getArgNumLocales\<close>
  returns 0.
\<close>

theorem parseNumLocales_stores_then_checks:
  assumes "c_string_to_int32_t_precise h numPtr = (v, invalid, ch)"
  shows "(invalid \<or> sint v < 1 \<longrightarrow>
            (\<exists>m. parseNumLocales h numPtr lineno filename s
                    = Inl (Fatal m lineno filename (s\<lparr>argNumLocales := v\<rparr>))))
       \<and> (\<not> invalid \<and> 1 \<le> sint v \<longrightarrow>
            parseNumLocales h numPtr lineno filename s = Inr (s\<lparr>argNumLocales := v\<rparr>)
            \<and> getArgNumLocales (s\<lparr>argNumLocales := v\<rparr>) = v)
       \<and> getArgNumLocales (init_state vb env margs c) = 0"
  using assms
  by (auto simp: parseNumLocales_def getArgNumLocales_def init_state_def chpl_error_def Let_def)

theorem parseNumLocales_stores_then_checks_witness:
  "parseNumLocales (strict_hooks False no_enomem) ''4'' 1 filename_cmdline state0
     = Inr (state0\<lparr>argNumLocales := 4\<rparr>)
   \<and> getArgNumLocales (state0\<lparr>argNumLocales := 4\<rparr>) = 4
   \<and> getArgNumLocales state0 = 0"
proof -
  have c: "c_string_to_int32_t_precise (strict_hooks False no_enomem) ''4'' = (4, False, CHR 0x00)"
    by (simp add: strict_hooks_def decimal_to_int32_def)
  show ?thesis
    using parseNumLocales_stores_then_checks [OF c, of 1 filename_cmdline state0 1
        "[''HOME'' \<mapsto> ''/root'']" "[''prog'']" "()"]
    by (simp add: state0_def)
qed

text \<open>
  C8 as the specification words it fails: for the string \<open>-5\<close> the error is reported
  and the stored count is \<open>-5\<close> all the same.
\<close>

theorem parseNumLocales_rejected_value_is_stored:
  "parseNumLocales (strict_hooks False no_enomem) ''-5'' 1 filename_cmdline state0
     = Inl (Fatal ''Number of locales must be greater than 0'' 1 filename_cmdline
              (state0\<lparr>argNumLocales := - 5\<rparr>))
   \<and> getArgNumLocales (state0\<lparr>argNumLocales := - 5\<rparr>) = - 5"
  by (simp add: parseNumLocales_def strict_hooks_def decimal_to_int32_def chpl_error_def
      getArgNumLocales_def)

subsection \<open>Environment variables\<close>

lemma setenv_keeps:
  "setenv nomem env name val 0 = (rc, eno, env') \<Longrightarrow> env \<subseteq>\<^sub>m env'"
  unfolding setenv_def by (auto split: if_splits simp: map_le_def)

lemma defineEnvVar_effect:
  "defineEnvVar h estr lineno filename s = Inr (buf, s') \<Longrightarrow>
     environ s \<subseteq>\<^sub>m environ s' \<and> out s' = out s \<and> argNumLocales s' = argNumLocales s
     \<and> blockreport s' = blockreport s \<and> taskreport s' = taskreport s
     \<and> main_arg s' = main_arg s"
  unfolding defineEnvVar_def
  by (auto split: option.splits prod.splits if_splits simp: Let_def dest: setenv_keeps)

lemma defineEnvVar_fatal:
  "defineEnvVar h estr lineno filename s = Inl r \<Longrightarrow>
     strchr estr CHR ''='' = None \<and>
     r = Fatal ''-E argument must be of the form name=value'' lineno filename s"
  unfolding defineEnvVar_def chpl_error_def
  by (auto split: option.splits prod.splits simp: Let_def)

subsection \<open>The loop of parseArgs\<close>

lemma call_helper_effect: "call_helper f l = Inr l' \<Longrightarrow> step_effect a l l'"
  unfolding call_helper_def step_effect_def by (auto split: sum.splits prod.splits)

lemma long_flag_effect: "long_flag h flag l = Inr l' \<Longrightarrow> step_effect (''--'' @ flag) l l'"
  unfolding long_flag_def Let_def
  by (auto split: if_splits dest: call_helper_effect
      simp: step_effect_def next_arg_def push_main_arg_def is_blockreport_flag_def
        is_taskreport_flag_def is_help_flag_def is_about_flag_def)

lemma flag_E_effect: "flag_E h operand l = Inr l' \<Longrightarrow> step_effect a l l'"
  unfolding flag_E_def Let_def
  by (auto split: if_splits sum.splits prod.splits dest!: defineEnvVar_effect simp: step_effect_def)

lemma flag_f_effect: "flag_f h operand l = Inr l' \<Longrightarrow> step_effect a l l'"
  unfolding flag_f_def Let_def
  by (auto split: if_splits sum.splits prod.splits simp: step_effect_def)

lemma flag_n_effect: "flag_n h rest l = Inr l' \<Longrightarrow> step_effect a l l'"
  unfolding flag_n_def Let_def
  by (auto split: if_splits sum.splits prod.splits dest: call_helper_effect simp: step_effect_def)

lemma short_flag_effect:
  "short_flag h c rest l = Inr l' \<Longrightarrow> step_effect (CHR ''-'' # c # rest) l l'"
  unfolding short_flag_def Let_def
  by (auto split: if_splits dest: call_helper_effect flag_E_effect flag_f_effect flag_n_effect
      simp: step_effect_def next_arg_def push_main_arg_def is_blockreport_flag_def
        is_taskreport_flag_def is_help_flag_def is_about_flag_def)

lemma parseArg_effect:
  "parseArg h l = Inr l' \<Longrightarrow> step_effect (argv l ! idx l) l l'"
  unfolding parseArg_def Let_def
  by (auto split: if_splits list.splits
      dest: call_helper_effect long_flag_effect short_flag_effect
      simp: step_effect_def next_arg_def push_main_arg_def)

lemma call_helper_fatal: "call_helper f l = Inl r \<Longrightarrow> final_state r = rt l"
  unfolding call_helper_def chpl_error_def by (auto split: sum.splits prod.splits)

lemma long_flag_fatal: "long_flag h flag l = Inl r \<Longrightarrow> final_state r = rt l"
  unfolding long_flag_def Let_def not_a_valid_argument_def chpl_error_def
  by (auto split: if_splits dest: call_helper_fatal)

lemma flag_E_fatal: "flag_E h operand l = Inl r \<Longrightarrow> final_state r = rt l"
  unfolding flag_E_def Let_def chpl_error_def
  by (auto split: if_splits sum.splits prod.splits dest!: defineEnvVar_fatal)

lemma flag_f_fatal: "flag_f h operand l = Inl r \<Longrightarrow> final_state r = rt l"
  unfolding flag_f_def Let_def chpl_error_def
  by (auto split: if_splits sum.splits prod.splits)

lemma flag_n_fatal: "flag_n h rest l = Inl r \<Longrightarrow> final_state r = rt l"
  unfolding flag_n_def Let_def chpl_error_def
  by (auto split: if_splits sum.splits prod.splits dest: call_helper_fatal)

lemma short_flag_fatal: "short_flag h c rest l = Inl r \<Longrightarrow> final_state r = rt l"
  unfolding short_flag_def Let_def not_a_valid_argument_def chpl_error_def
  by (auto split: if_splits dest: call_helper_fatal flag_E_fatal flag_f_fatal flag_n_fatal)

lemma parseArg_fatal: "parseArg h l = Inl r \<Longrightarrow> final_state r = rt l"
  unfolding parseArg_def Let_def not_a_valid_argument_def chpl_error_def
  by (auto split: if_splits list.splits dest: call_helper_fatal long_flag_fatal short_flag_fatal)

lemma run_effect_refl: "run_effect l l"
  by (simp add: run_effect_def)

lemma nth_in_drop:
  assumes "i0 \<le> i" and "i < length xs"
  shows "xs ! i \<in> set (drop i0 xs)"
proof -
  have "drop i0 xs ! (i - i0) = xs ! i" using assms by simp
  moreover have "i - i0 < length (drop i0 xs)" using assms by simp
  ultimately show ?thesis using nth_mem by metis
qed

lemma run_effect_step:
  assumes r: "run_effect l0 l" and i: "idx l < length (argv l)" and p: "parseArg h l = Inr l'"
  shows "run_effect l0 l'"
proof -
  have pr: "idx l < idx l'" "argv l' = argv l" using parseArg_progress [OF p i] by simp_all
  have r1: "argv l = argv l0" "idx l0 \<le> idx l" using r by (simp_all add: run_effect_def)
  have a: "argv l ! idx l \<in> set (drop (idx l0) (argv l0))"
    using r1 i nth_in_drop [of "idx l0" "idx l" "argv l0"] by simp
  have e: "step_effect (argv l ! idx l) l l'" using parseArg_effect [OF p] .
  have c1: "argv l' = argv l0 \<and> idx l0 \<le> idx l'" using pr r1 by simp
  have c2: "out (rt l') = out (rt l0) \<and> argNumLocales (rt l') = argNumLocales (rt l0)"
    using r e by (simp add: run_effect_def step_effect_def)
  have c3: "environ (rt l0) \<subseteq>\<^sub>m environ (rt l')"
  proof -
    have "environ (rt l0) \<subseteq>\<^sub>m environ (rt l)" using r by (simp add: run_effect_def)
    moreover have "environ (rt l) \<subseteq>\<^sub>m environ (rt l')" using e by (simp add: step_effect_def)
    ultimately show ?thesis by (rule map_le_trans)
  qed
  have c4: "blockreport (rt l') = blockreport (rt l0)
          \<or> blockreport (rt l') = 1 \<and> (\<exists>a \<in> set (drop (idx l0) (argv l0)). is_blockreport_flag a)"
  proof -
    have "blockreport (rt l') = blockreport (rt l)
          \<or> blockreport (rt l') = 1 \<and> is_blockreport_flag (argv l ! idx l)"
      using e by (simp add: step_effect_def)
    moreover have "blockreport (rt l) = blockreport (rt l0)
          \<or> blockreport (rt l) = 1 \<and> (\<exists>a \<in> set (drop (idx l0) (argv l0)). is_blockreport_flag a)"
      using r by (simp add: run_effect_def)
    ultimately show ?thesis using a by auto
  qed
  have c5: "taskreport (rt l') = taskreport (rt l0)
          \<or> taskreport (rt l') = 1 \<and> (\<exists>a \<in> set (drop (idx l0) (argv l0)). is_taskreport_flag a)"
  proof -
    have "taskreport (rt l') = taskreport (rt l)
          \<or> taskreport (rt l') = 1 \<and> is_taskreport_flag (argv l ! idx l)"
      using e by (simp add: step_effect_def)
    moreover have "taskreport (rt l) = taskreport (rt l0)
          \<or> taskreport (rt l) = 1 \<and> (\<exists>a \<in> set (drop (idx l0) (argv l0)). is_taskreport_flag a)"
      using r by (simp add: run_effect_def)
    ultimately show ?thesis using a by auto
  qed
  have c6: "printHelp l' = printHelp l0
          \<or> printHelp l' \<and> (\<exists>a \<in> set (drop (idx l0) (argv l0)). is_help_flag a)"
  proof -
    have "printHelp l' = printHelp l \<or> printHelp l' \<and> is_help_flag (argv l ! idx l)"
      using e by (simp add: step_effect_def)
    moreover have "printHelp l = printHelp l0
          \<or> printHelp l \<and> (\<exists>a \<in> set (drop (idx l0) (argv l0)). is_help_flag a)"
      using r by (simp add: run_effect_def)
    ultimately show ?thesis using a by auto
  qed
  have c7: "printAbout l' = printAbout l0
          \<or> printAbout l' \<and> (\<exists>a \<in> set (drop (idx l0) (argv l0)). is_about_flag a)"
  proof -
    have "printAbout l' = printAbout l \<or> printAbout l' \<and> is_about_flag (argv l ! idx l)"
      using e by (simp add: step_effect_def)
    moreover have "printAbout l = printAbout l0
          \<or> printAbout l \<and> (\<exists>a \<in> set (drop (idx l0) (argv l0)). is_about_flag a)"
      using r by (simp add: run_effect_def)
    ultimately show ?thesis using a by auto
  qed
  show ?thesis
    unfolding run_effect_def using c1 c2 c3 c4 c5 c6 c7 by blast
qed

lemma parseLoop_effect:
  "run_effect l0 l \<Longrightarrow>
     (case parseLoop h l of
        Inl r \<Rightarrow> \<exists>l1. run_effect l0 l1 \<and> final_state r = rt l1
      | Inr l' \<Rightarrow> run_effect l0 l' \<and> length (argv l') \<le> idx l')"
proof (induction h l rule: parseLoop.induct)
  case (1 h l)
  show ?case
  proof (cases "idx l < length (argv l)")
    case False
    then show ?thesis using "1.prems" by (simp add: parseLoop.simps [of h l])
  next
    case True
    show ?thesis
    proof (cases "parseArg h l")
      case (Inl r)
      then show ?thesis using True "1.prems" parseArg_fatal [OF Inl]
        by (auto simp: parseLoop.simps [of h l])
    next
      case (Inr l')
      have "run_effect l0 l'" using run_effect_step [OF "1.prems" True Inr] .
      then show ?thesis using "1.IH" [OF True Inr] True Inr
        by (simp add: parseLoop.simps [of h l])
    qed
  qed
qed

lemma parseArg_plain:
  assumes i: "idx l < length (argv l)" and s: "\<not> stop_parsing l" and p: "plain_flag (argv l ! idx l)"
  shows "\<exists>l'. parseArg h l = Inr l' \<and> idx l' = idx l + 1 \<and> argv l' = argv l \<and> \<not> stop_parsing l'
            \<and> out (rt l') = out (rt l)
            \<and> printHelp l' = (printHelp l \<or> is_help_flag (argv l ! idx l))
            \<and> printAbout l' = (printAbout l \<or> is_about_flag (argv l ! idx l))
            \<and> main_arg (rt l') = main_arg (rt l) @ filter is_help_flag [argv l ! idx l]
            \<and> blockreport (rt l') = (if is_blockreport_flag (argv l ! idx l) then 1 else blockreport (rt l))
            \<and> taskreport (rt l') = (if is_taskreport_flag (argv l ! idx l) then 1 else taskreport (rt l))"
proof -
  have "argv l ! idx l = ''--gdb'' \<or> argv l ! idx l = ''--help'' \<or> argv l ! idx l = ''--about''
      \<or> argv l ! idx l = ''--verbose'' \<or> argv l ! idx l = ''--blockreport''
      \<or> argv l ! idx l = ''--taskreport'' \<or> argv l ! idx l = ''--quiet''
      \<or> argv l ! idx l = ''-a'' \<or> argv l ! idx l = ''-b'' \<or> argv l ! idx l = ''-h''
      \<or> argv l ! idx l = ''-q'' \<or> argv l ! idx l = ''-t'' \<or> argv l ! idx l = ''-v''"
    using p by (simp add: plain_flag_def)
  then show ?thesis
    using s
    by (elim disjE)
       (simp_all add: Let_def parseArg_def long_flag_def short_flag_def next_arg_def push_main_arg_def
          is_help_flag_def is_about_flag_def is_blockreport_flag_def is_taskreport_flag_def)
qed

lemma parseLoop_plain:
  "idx l + n \<le> length (argv l) \<Longrightarrow> \<not> stop_parsing l
    \<Longrightarrow> (\<forall>a \<in> set (take n (drop (idx l) (argv l))). plain_flag a)
    \<Longrightarrow> \<exists>l1. parseLoop h l = parseLoop h l1 \<and> idx l1 = idx l + n \<and> argv l1 = argv l
            \<and> \<not> stop_parsing l1 \<and> out (rt l1) = out (rt l)
            \<and> printHelp l1
                = (printHelp l \<or> (\<exists>a \<in> set (take n (drop (idx l) (argv l))). is_help_flag a))
            \<and> printAbout l1
                = (printAbout l \<or> (\<exists>a \<in> set (take n (drop (idx l) (argv l))). is_about_flag a))
            \<and> main_arg (rt l1)
                = main_arg (rt l) @ filter is_help_flag (take n (drop (idx l) (argv l)))"
proof (induction n arbitrary: l)
  case 0
  then show ?case by auto
next
  case (Suc n)
  have i: "idx l < length (argv l)" using Suc.prems(1) by simp
  have d: "drop (idx l) (argv l) = argv l ! idx l # drop (Suc (idx l)) (argv l)"
    using i by (simp add: Cons_nth_drop_Suc)
  have t: "take (Suc n) (drop (idx l) (argv l)) = argv l ! idx l # take n (drop (Suc (idx l)) (argv l))"
    using d by simp
  have p: "plain_flag (argv l ! idx l)" using Suc.prems(3) t by simp
  obtain l' where l': "parseArg h l = Inr l'" "idx l' = idx l + 1" "argv l' = argv l"
      "\<not> stop_parsing l'" "out (rt l') = out (rt l)"
      "printHelp l' = (printHelp l \<or> is_help_flag (argv l ! idx l))"
      "printAbout l' = (printAbout l \<or> is_about_flag (argv l ! idx l))"
      "main_arg (rt l') = main_arg (rt l) @ filter is_help_flag [argv l ! idx l]"
    using parseArg_plain [OF i Suc.prems(2) p, of h] by blast
  have e: "parseLoop h l = parseLoop h l'"
    using i l'(1) by (simp add: parseLoop.simps [of h l])
  have a1: "idx l' + n \<le> length (argv l')" using Suc.prems(1) l'(2,3) by simp
  have a3: "\<forall>a \<in> set (take n (drop (idx l') (argv l'))). plain_flag a"
    using Suc.prems(3) t l'(2,3) by simp
  obtain l1 where l1: "parseLoop h l' = parseLoop h l1" "idx l1 = idx l' + n" "argv l1 = argv l'"
      "\<not> stop_parsing l1" "out (rt l1) = out (rt l')"
      "printHelp l1 = (printHelp l' \<or> (\<exists>a \<in> set (take n (drop (idx l') (argv l'))). is_help_flag a))"
      "printAbout l1 = (printAbout l' \<or> (\<exists>a \<in> set (take n (drop (idx l') (argv l'))). is_about_flag a))"
      "main_arg (rt l1) = main_arg (rt l') @ filter is_help_flag (take n (drop (idx l') (argv l')))"
    using Suc.IH [OF a1 l'(4) a3] by blast
  have "parseLoop h l = parseLoop h l1" using e l1(1) by simp
  moreover have "idx l1 = idx l + Suc n" using l1(2) l'(2) by simp
  moreover have "argv l1 = argv l" using l1(3) l'(3) by simp
  moreover have "out (rt l1) = out (rt l)" using l1(5) l'(5) by simp
  moreover have "printHelp l1
       = (printHelp l \<or> (\<exists>a \<in> set (take (Suc n) (drop (idx l) (argv l))). is_help_flag a))"
    using l1(6) l'(2,3,6) t by auto
  moreover have "printAbout l1
       = (printAbout l \<or> (\<exists>a \<in> set (take (Suc n) (drop (idx l) (argv l))). is_about_flag a))"
    using l1(7) l'(2,3,7) t by auto
  moreover have "main_arg (rt l1)
       = main_arg (rt l) @ filter is_help_flag (take (Suc n) (drop (idx l) (argv l)))"
    using l1(8) l'(2,3,8) t by simp
  ultimately show ?case using l1(4) by blast
qed

lemma start_locals_simps:
  "idx (start_locals av s) = 1" "argv (start_locals av s) = av" "rt (start_locals av s) = s"
  "\<not> stop_parsing (start_locals av s)" "\<not> printHelp (start_locals av s)"
  "\<not> printAbout (start_locals av s)"
  by (simp_all add: start_locals_def)

lemma parseArgs_final:
  "\<exists>l1. run_effect (start_locals av s) l1
      \<and> blockreport (final_state (parseArgs h av s)) = blockreport (rt l1)
      \<and> taskreport (final_state (parseArgs h av s)) = taskreport (rt l1)
      \<and> environ (final_state (parseArgs h av s)) = environ (rt l1)
      \<and> (out (final_state (parseArgs h av s)) = out (rt l1)
          \<or> out (final_state (parseArgs h av s)) = out (rt l1) @ [ProgramAbout]
          \<or> \<not> mainHasArgs h)"
proof (cases "parseLoop h (start_locals av s)")
  case (Inl r)
  then show ?thesis
    using parseLoop_effect [OF run_effect_refl, where h = h and l = "start_locals av s"]
    by (auto simp: parseArgs_def)
next
  case (Inr l)
  then have "run_effect (start_locals av s) l"
    using parseLoop_effect [OF run_effect_refl, where h = h and l = "start_locals av s"] by simp
  moreover have "blockreport (final_state (parseArgs h av s)) = blockreport (rt l)"
    "taskreport (final_state (parseArgs h av s)) = taskreport (rt l)"
    "environ (final_state (parseArgs h av s)) = environ (rt l)"
    "out (final_state (parseArgs h av s)) = out (rt l)
          \<or> out (final_state (parseArgs h av s)) = out (rt l) @ [ProgramAbout]
          \<or> \<not> mainHasArgs h"
    using Inr
    by (simp_all add: parseArgs_def chpl_program_about_def printConfigVarTable_def printHelpTable_def)
  ultimately show ?thesis by blast
qed







subsection \<open>The environment across the run\<close>

text \<open>
  C9. \<open>defineEnvVar\<close> ends the run only when its argument has no \<open>=\<close>. Otherwise it
  returns, whatever \<open>setenv\<close> answered: the buffer is as it was on entry, nothing has
  been written to the output, and every variable that was set in the environment has
  the value it had. So every iteration of \<open>parseArgs\<close> that goes on leaves \<open>argv\<close>
  and the output as they were and keeps the variables that were set, and so does the
  whole run.
\<close>

theorem defineEnvVar_keeps_environment:
  "(case defineEnvVar h estr lineno filename s of
      Inl r \<Rightarrow> strchr estr CHR ''='' = None
               \<and> r = Fatal ''-E argument must be of the form name=value'' lineno filename s
    | Inr (buf, s') \<Rightarrow>
        buf = estr \<and> out s' = out s
        \<and> (\<forall>name val. environ s name = Some val \<longrightarrow> environ s' name = Some val))
   \<and> (idx l < length (argv l) \<and> parseArg h l = Inr l' \<longrightarrow>
        argv l' = argv l \<and> out (rt l') = out (rt l) \<and> environ (rt l) \<subseteq>\<^sub>m environ (rt l'))
   \<and> environ s \<subseteq>\<^sub>m environ (final_state (parseArgs h av s))"
proof -
  have A: "(case defineEnvVar h estr lineno filename s of
      Inl r \<Rightarrow> strchr estr CHR ''='' = None
               \<and> r = Fatal ''-E argument must be of the form name=value'' lineno filename s
    | Inr (buf, s') \<Rightarrow>
        buf = estr \<and> out s' = out s
        \<and> (\<forall>name val. environ s name = Some val \<longrightarrow> environ s' name = Some val))"
  proof (cases "defineEnvVar h estr lineno filename s")
    case (Inl r)
    then show ?thesis using defineEnvVar_fatal [OF Inl] by simp
  next
    case (Inr p)
    obtain buf s' where p: "p = (buf, s')" by (cases p)
    have e: "defineEnvVar h estr lineno filename s = Inr (buf, s')" using Inr p by simp
    have "buf = estr" using defineEnvVar_buf [OF e] .
    moreover have "out s' = out s"
      using defineEnvVar_effect [OF e] by simp
    moreover have "\<forall>name val. environ s name = Some val \<longrightarrow> environ s' name = Some val"
      using defineEnvVar_effect [OF e] by (auto simp: map_le_def dom_def)
    ultimately show ?thesis using Inr p by simp
  qed
  have B: "idx l < length (argv l) \<and> parseArg h l = Inr l' \<longrightarrow>
        argv l' = argv l \<and> out (rt l') = out (rt l) \<and> environ (rt l) \<subseteq>\<^sub>m environ (rt l')"
    using parseArg_progress [of h l l'] parseArg_effect [of h l l']
    by (simp add: step_effect_def)
  have C: "environ s \<subseteq>\<^sub>m environ (final_state (parseArgs h av s))"
  proof -
    obtain l1 where l1: "run_effect (start_locals av s) l1"
        "environ (final_state (parseArgs h av s)) = environ (rt l1)"
      using parseArgs_final [of av s h] by blast
    show ?thesis using l1 by (simp add: run_effect_def start_locals_simps)
  qed
  show ?thesis using A B C by blast
qed

text \<open>
  With a C library that is out of memory: \<open>HOME\<close>, which is set, keeps its value,
  and storing \<open>TMP\<close> fails; the call returns, the message stays in the buffer
  \<open>errmsg\<close> and nothing is printed.
\<close>

theorem defineEnvVar_keeps_environment_witness:
  "defineEnvVar (strict_hooks False always_enomem) ''HOME=/tmp'' 1 filename_cmdline state0
     = Inr (''HOME=/tmp'', state0)
   \<and> (\<exists>s'. defineEnvVar (strict_hooks False always_enomem) ''TMP=/tmp'' 1 filename_cmdline state0
              = Inr (''TMP=/tmp'', s')
            \<and> out s' = [] \<and> environ s' ''HOME'' = Some ''/root'' \<and> environ s' ''TMP'' = None
            \<and> errmsg s' \<noteq> [])"
  using defineEnvVar_keeps_environment [where h = "strict_hooks False always_enomem"
      and estr = "''TMP=/tmp''" and lineno = 1 and filename = filename_cmdline and s = state0
      and l = "start_locals [] state0" and l' = "start_locals [] state0" and av = "[]"]
  by (simp add: defineEnvVar_def strchr_def c_str_def setenv_def strict_hooks_def always_enomem_def
     state0_def init_state_def Let_def dquote_def)

subsection \<open>The report toggles\<close>








lemma call_helper_is_fatal: "call_helper f l = Inl r \<Longrightarrow> \<exists>m ln fn. r = Fatal m ln fn (rt l)"
  unfolding call_helper_def chpl_error_def by (auto split: sum.splits prod.splits)

lemma long_flag_is_fatal: "long_flag h flag l = Inl r \<Longrightarrow> \<exists>m ln fn. r = Fatal m ln fn (rt l)"
  unfolding long_flag_def Let_def not_a_valid_argument_def chpl_error_def
  by (auto split: if_splits dest: call_helper_is_fatal)

lemma flag_E_is_fatal: "flag_E h operand l = Inl r \<Longrightarrow> \<exists>m ln fn. r = Fatal m ln fn (rt l)"
  unfolding flag_E_def Let_def chpl_error_def
  by (auto split: if_splits sum.splits prod.splits dest!: defineEnvVar_fatal)

lemma flag_f_is_fatal: "flag_f h operand l = Inl r \<Longrightarrow> \<exists>m ln fn. r = Fatal m ln fn (rt l)"
  unfolding flag_f_def Let_def chpl_error_def
  by (auto split: if_splits sum.splits prod.splits)

lemma flag_n_is_fatal: "flag_n h rest l = Inl r \<Longrightarrow> \<exists>m ln fn. r = Fatal m ln fn (rt l)"
  unfolding flag_n_def Let_def chpl_error_def
  by (auto split: if_splits sum.splits prod.splits dest: call_helper_is_fatal)

lemma short_flag_is_fatal:
  "short_flag h c rest l = Inl r \<Longrightarrow> \<exists>m ln fn. r = Fatal m ln fn (rt l)"
  unfolding short_flag_def Let_def not_a_valid_argument_def chpl_error_def
  by (auto split: if_splits
      dest: call_helper_is_fatal flag_E_is_fatal flag_f_is_fatal flag_n_is_fatal)

lemma parseArg_is_fatal: "parseArg h l = Inl r \<Longrightarrow> \<exists>m ln fn. r = Fatal m ln fn (rt l)"
  unfolding parseArg_def Let_def not_a_valid_argument_def chpl_error_def
  by (auto split: if_splits list.splits
      dest: call_helper_is_fatal long_flag_is_fatal short_flag_is_fatal)

lemma parseArg_handed_through:
  "mainHasArgs h \<Longrightarrow> stop_parsing l \<Longrightarrow>
     parseArg h l = Inr (next_arg l (push_main_arg (argv l ! idx l) (rt l)))"
  by (simp add: parseArg_def)

lemma parseArg_flag:
  assumes p: "plain_flag (argv l ! idx l)" and s: "\<not> (mainHasArgs h \<and> stop_parsing l)"
  shows "\<exists>l'. parseArg h l = Inr l' \<and> idx l' = idx l + 1
            \<and> main_arg (rt l') = main_arg (rt l) @ filter is_help_flag [argv l ! idx l]
            \<and> printHelp l' = (printHelp l \<or> is_help_flag (argv l ! idx l))
            \<and> printAbout l' = (printAbout l \<or> is_about_flag (argv l ! idx l))
            \<and> blockreport (rt l') = (if is_blockreport_flag (argv l ! idx l) then 1 else blockreport (rt l))
            \<and> taskreport (rt l') = (if is_taskreport_flag (argv l ! idx l) then 1 else taskreport (rt l))"
proof -
  have "argv l ! idx l = ''--gdb'' \<or> argv l ! idx l = ''--help'' \<or> argv l ! idx l = ''--about''
      \<or> argv l ! idx l = ''--verbose'' \<or> argv l ! idx l = ''--blockreport''
      \<or> argv l ! idx l = ''--taskreport'' \<or> argv l ! idx l = ''--quiet''
      \<or> argv l ! idx l = ''-a'' \<or> argv l ! idx l = ''-b'' \<or> argv l ! idx l = ''-h''
      \<or> argv l ! idx l = ''-q'' \<or> argv l ! idx l = ''-t'' \<or> argv l ! idx l = ''-v''"
    using p by (simp add: plain_flag_def)
  then show ?thesis
    using s
    by (elim disjE)
       (auto simp add: Let_def parseArg_def long_flag_def short_flag_def next_arg_def push_main_arg_def
          is_help_flag_def is_about_flag_def is_blockreport_flag_def is_taskreport_flag_def)
qed

lemma named_flag_plain:
  "is_blockreport_flag a \<or> is_taskreport_flag a \<or> is_help_flag a \<or> is_about_flag a
     \<Longrightarrow> plain_flag a"
  by (auto simp: plain_flag_def is_blockreport_flag_def is_taskreport_flag_def is_help_flag_def
      is_about_flag_def)

text \<open>What an iteration that goes on does to the toggles and to the locals, exactly.\<close>

lemma parseArg_exact:
  assumes p: "parseArg h l = Inr l'"
  shows "blockreport (rt l') = (if flag_at h is_blockreport_flag l then 1 else blockreport (rt l))"
    and "taskreport (rt l') = (if flag_at h is_taskreport_flag l then 1 else taskreport (rt l))"
    and "printHelp l' = (printHelp l \<or> flag_at h is_help_flag l)"
    and "printAbout l' = (printAbout l \<or> flag_at h is_about_flag l)"
proof -
  note e = parseArg_effect [OF p, unfolded step_effect_def]
  show "blockreport (rt l') = (if flag_at h is_blockreport_flag l then 1 else blockreport (rt l))"
  proof (cases "flag_at h is_blockreport_flag l")
    case True
    then show ?thesis
      using parseArg_flag [of l h] named_flag_plain [of "argv l ! idx l"] p
      by (auto simp: flag_at_def)
  next
    case False
    then show ?thesis using e p by (auto simp: flag_at_def parseArg_handed_through next_arg_def push_main_arg_def)
  qed
  show "taskreport (rt l') = (if flag_at h is_taskreport_flag l then 1 else taskreport (rt l))"
  proof (cases "flag_at h is_taskreport_flag l")
    case True
    then show ?thesis
      using parseArg_flag [of l h] named_flag_plain [of "argv l ! idx l"] p
      by (auto simp: flag_at_def)
  next
    case False
    then show ?thesis using e p by (auto simp: flag_at_def parseArg_handed_through next_arg_def push_main_arg_def)
  qed
  show "printHelp l' = (printHelp l \<or> flag_at h is_help_flag l)"
  proof (cases "flag_at h is_help_flag l")
    case True
    then show ?thesis
      using parseArg_flag [of l h] named_flag_plain [of "argv l ! idx l"] p
      by (auto simp: flag_at_def)
  next
    case False
    then show ?thesis using e p by (auto simp: flag_at_def parseArg_handed_through next_arg_def push_main_arg_def)
  qed
  show "printAbout l' = (printAbout l \<or> flag_at h is_about_flag l)"
  proof (cases "flag_at h is_about_flag l")
    case True
    then show ?thesis
      using parseArg_flag [of l h] named_flag_plain [of "argv l ! idx l"] p
      by (auto simp: flag_at_def)
  next
    case False
    then show ?thesis using e p by (auto simp: flag_at_def parseArg_handed_through next_arg_def push_main_arg_def)
  qed
qed




lemma parseLoop_latch_locals:
  "(\<And>l l'. parseArg h l = Inr l' \<Longrightarrow> g l' = (g l \<or> flag_at h P l))
    \<Longrightarrow> parseLoop h l = Inr l'
    \<Longrightarrow> g l' = (g l \<or> (\<exists>k \<in> set (iterations h l). flag_at h P k))"
proof (induction h l rule: parseLoop.induct)
  case (1 h l)
  note step = "1.prems"(1)
  show ?case
  proof (cases "idx l < length (argv l)")
    case False
    have "l' = l" using False "1.prems"(2) by (simp add: parseLoop.simps [of h l])
    moreover have "iterations h l = []" using False by (simp add: iterations.simps [of h l])
    ultimately show ?thesis by simp
  next
    case True
    then obtain l1 where l1: "parseArg h l = Inr l1" "parseLoop h l1 = Inr l'"
      using "1.prems"(2) by (cases "parseArg h l") (auto simp: parseLoop.simps [of h l])
    have i: "iterations h l = l # iterations h l1"
      using True l1(1) by (simp add: iterations.simps [of h l])
    have "g l' = (g l1 \<or> (\<exists>k \<in> set (iterations h l1). flag_at h P k))"
      using "1.IH" [OF True l1(1) step l1(2)] by blast
    then show ?thesis using step [OF l1(1)] unfolding i by auto
  qed
qed




























subsection \<open>The help flag\<close>

lemma plain_run_complete:
  assumes "\<forall>a \<in> set flags. plain_flag a"
  shows "\<exists>l1. parseLoop h (start_locals (prog # flags) s) = Inr l1 \<and> out (rt l1) = out s
           \<and> printHelp l1 = (\<exists>a \<in> set flags. is_help_flag a)
           \<and> printAbout l1 = (\<exists>a \<in> set flags. is_about_flag a)
           \<and> main_arg (rt l1) = main_arg s @ filter is_help_flag flags"
proof -
  let ?l = "start_locals (prog # flags) s"
  have "idx ?l + length flags \<le> length (argv ?l)" by (simp add: start_locals_simps)
  moreover have "\<forall>a \<in> set (take (length flags) (drop (idx ?l) (argv ?l))). plain_flag a"
    using assms by (simp add: start_locals_simps)
  ultimately obtain l1 where l1: "parseLoop h ?l = parseLoop h l1"
      "idx l1 = idx ?l + length flags" "argv l1 = argv ?l" "out (rt l1) = out (rt ?l)"
      "printHelp l1 = (printHelp ?l
          \<or> (\<exists>a \<in> set (take (length flags) (drop (idx ?l) (argv ?l))). is_help_flag a))"
      "printAbout l1 = (printAbout ?l
          \<or> (\<exists>a \<in> set (take (length flags) (drop (idx ?l) (argv ?l))). is_about_flag a))"
      "main_arg (rt l1)
          = main_arg (rt ?l) @ filter is_help_flag (take (length flags) (drop (idx ?l) (argv ?l)))"
    using parseLoop_plain [of ?l "length flags" h] start_locals_simps(4) [of "prog # flags" s]
    by blast
  have "parseLoop h l1 = Inr l1"
    using l1(2,3) by (simp add: parseLoop.simps [of h l1] start_locals_simps)
  then show ?thesis using l1 by (simp add: start_locals_simps)
qed

lemma help_tables_state:
  "printConfigVarTable (printHelpTable s)
     = s\<lparr>out := out s @ AdditionalHelp # help_table_text @ [ConfigVarTable]\<rparr>"
  by (simp add: printConfigVarTable_def printHelpTable_def flagList_def printHeaders_def
      pad_left_justified_def nl_def help_table_text_def)

lemma parseLoop_fatal:
  "parseLoop h l = Inl r \<Longrightarrow> \<exists>m ln fn s'. r = Fatal m ln fn s' \<and> out s' = out (rt l)"
proof (induction h l rule: parseLoop.induct)
  case (1 h l)
  have i: "idx l < length (argv l)"
    using "1.prems" by (cases "idx l < length (argv l)") (simp_all add: parseLoop.simps [of h l])
  show ?case
  proof (cases "parseArg h l")
    case (Inl r')
    then have "r' = r" using i "1.prems" by (simp add: parseLoop.simps [of h l])
    then show ?thesis using parseArg_is_fatal [OF Inl] by auto
  next
    case (Inr l1)
    then have "parseLoop h l1 = Inl r" using i "1.prems" by (simp add: parseLoop.simps [of h l])
    then obtain m ln fn s' where "r = Fatal m ln fn s'" "out s' = out (rt l1)"
      using "1.IH" [OF i Inr] by blast
    moreover have "out (rt l1) = out (rt l)"
      using parseArg_effect [OF Inr] by (simp add: step_effect_def)
    ultimately show ?thesis by simp
  qed
qed

lemma parseArgs_outcome:
  "(\<exists>m ln fn s'. parseArgs h av s = Fatal m ln fn s' \<and> out s' = out s)
   \<or> (\<exists>s'. out s' = out s
         \<and> parseArgs h av s
             = (if \<exists>k \<in> set (iterations h (start_locals av s)). flag_at h is_about_flag k
                then Exited 0 (s'\<lparr>out := out s @ [ProgramAbout]\<rparr>)
                else if (\<exists>k \<in> set (iterations h (start_locals av s)). flag_at h is_help_flag k)
                        \<and> \<not> mainHasArgs h
                then Exited 0 (s'\<lparr>out := out s @ AdditionalHelp # help_table_text @ [ConfigVarTable]\<rparr>)
                else Returned s'))"
proof (cases "parseLoop h (start_locals av s)")
  case (Inl r)
  then obtain m ln fn s' where "r = Fatal m ln fn s'" "out s' = out (rt (start_locals av s))"
    using parseLoop_fatal by blast
  then have "parseArgs h av s = Fatal m ln fn s' \<and> out s' = out s"
    using Inl by (simp add: parseArgs_def start_locals_simps)
  then show ?thesis by blast
next
  case (Inr l')
  have a: "printAbout l'
      = (\<exists>k \<in> set (iterations h (start_locals av s)). flag_at h is_about_flag k)"
    using parseLoop_latch_locals [where g = printAbout and P = is_about_flag,
        OF parseArg_exact(4) Inr]
    by (simp add: start_locals_simps)
  have p: "printHelp l'
      = (\<exists>k \<in> set (iterations h (start_locals av s)). flag_at h is_help_flag k)"
    using parseLoop_latch_locals [where g = printHelp and P = is_help_flag,
        OF parseArg_exact(3) Inr]
    by (simp add: start_locals_simps)
  have o: "out (rt l') = out s"
    using parseLoop_effect [OF run_effect_refl, where h = h and l = "start_locals av s"] Inr
    by (simp add: run_effect_def start_locals_simps)
  have "parseArgs h av s
             = (if \<exists>k \<in> set (iterations h (start_locals av s)). flag_at h is_about_flag k
                then Exited 0 ((rt l')\<lparr>out := out s @ [ProgramAbout]\<rparr>)
                else if (\<exists>k \<in> set (iterations h (start_locals av s)). flag_at h is_help_flag k)
                        \<and> \<not> mainHasArgs h
                then Exited 0 ((rt l')\<lparr>out := out s @ AdditionalHelp # help_table_text @ [ConfigVarTable]\<rparr>)
                else Returned (rt l'))"
    using Inr a p o by (simp add: parseArgs_def help_tables_state chpl_program_about_def)
  then show ?thesis using o by blast
qed

lemma help_flag_step:
  assumes "flag_at h is_help_flag l"
  shows "\<exists>l'. parseArg h l = Inr l' \<and> idx l' = idx l + 1 \<and> printHelp l'
            \<and> rt l' = (rt l)\<lparr>main_arg := main_arg (rt l) @ [argv l ! idx l]\<rparr>"
proof -
  have s: "\<not> (mainHasArgs h \<and> stop_parsing l)" and f: "is_help_flag (argv l ! idx l)"
    using assms by (simp_all add: flag_at_def)
  have "argv l ! idx l = ''--help'' \<or> argv l ! idx l = ''-h''"
    using f by (simp add: is_help_flag_def)
  then show ?thesis using s
    by (elim disjE)
       (auto simp: parseArg_def long_flag_def short_flag_def next_arg_def push_main_arg_def Let_def)
qed

lemma help_flag_alone:
  assumes f: "is_help_flag f"
  shows "parseArgs h [prog, f] s
        = (if mainHasArgs h then Returned (s\<lparr>main_arg := main_arg s @ [f]\<rparr>)
           else Exited 0 (s\<lparr>main_arg := main_arg s @ [f],
                             out := out s @ AdditionalHelp # help_table_text @ [ConfigVarTable]\<rparr>))"
proof -
  have "f = ''--help'' \<or> f = ''-h''" using f by (simp add: is_help_flag_def)
  then have "parseArgs h [prog, f] s
        = (if mainHasArgs h then Returned (push_main_arg f s)
           else Exited 0 (printConfigVarTable (printHelpTable (push_main_arg f s))))"
    by (elim disjE)
       (simp_all add: parseArgs_def start_locals_def parseLoop.simps parseArg_def long_flag_def
          short_flag_def next_arg_def Let_def)
  then show ?thesis by (simp add: help_tables_state push_main_arg_def)
qed

lemma help_among_plain_flags:
  assumes a: "\<forall>a \<in> set flags. plain_flag a \<and> \<not> is_about_flag a"
    and e: "\<exists>a \<in> set flags. is_help_flag a"
  shows "\<exists>s'. out s' = out s \<and> main_arg s' = main_arg s @ filter is_help_flag flags
                \<and> parseArgs h (prog # flags) s
                    = (if mainHasArgs h then Returned s'
                       else Exited 0 (s'\<lparr>out := out s @ AdditionalHelp # help_table_text
                                                  @ [ConfigVarTable]\<rparr>))"
proof -
  have "\<forall>a \<in> set flags. plain_flag a" using a by blast
  then obtain l1 where l1: "parseLoop h (start_locals (prog # flags) s) = Inr l1"
      "out (rt l1) = out s" "printHelp l1 = (\<exists>a \<in> set flags. is_help_flag a)"
      "printAbout l1 = (\<exists>a \<in> set flags. is_about_flag a)"
      "main_arg (rt l1) = main_arg s @ filter is_help_flag flags"
    using plain_run_complete [of flags h prog s] by blast
  have "printHelp l1" "\<not> printAbout l1" using a e l1(3,4) by auto
  then have "parseArgs h (prog # flags) s
       = (if mainHasArgs h then Returned (rt l1)
          else Exited 0 ((rt l1)\<lparr>out := out s @ AdditionalHelp # help_table_text
                                                  @ [ConfigVarTable]\<rparr>))"
    using l1(1,2) by (simp add: parseArgs_def help_tables_state)
  then show ?thesis using l1(2,5) by blast
qed

lemma no_help_when_main_has_args:
  assumes m: "mainHasArgs h"
  shows "out (final_state (parseArgs h av s)) = out s
         \<or> out (final_state (parseArgs h av s)) = out s @ [ProgramAbout]"
proof -
  obtain l1 where l1: "run_effect (start_locals av s) l1"
      "out (final_state (parseArgs h av s)) = out (rt l1)
          \<or> out (final_state (parseArgs h av s)) = out (rt l1) @ [ProgramAbout]
          \<or> \<not> mainHasArgs h"
    using parseArgs_final [of av s h] by blast
  have "out (rt l1) = out s" using l1(1) by (simp add: run_effect_def start_locals_simps)
  then show ?thesis using l1(2) m by simp
qed

text \<open>
  C10, as the code has it. On \<open>-h\<close> or \<open>--help\<close> alone, \<open>parseArgs\<close>
  appends the flag to the program's argument vector; when the program's main takes
  arguments it then returns, with nothing printed, and otherwise it prints the additional
  help, the lines of the help table and the table of the configuration variables, and
  exits with status 0. The same holds when the help flag stands among other flags that
  take no operand, \<open>--about\<close> and \<open>-a\<close> apart. When main takes arguments, no
  argument vector makes \<open>parseArgs\<close> print the help table. For every argument vector,
  the run ends in a fatal error with nothing printed, or: it prints the compilation
  information and exits with status 0 when an about flag was parsed; else it prints the
  help and exits with status 0 when a help flag was parsed and main takes no arguments;
  else it returns with nothing printed. An iteration that parses a help flag appends it
  to the program's argument vector and sets \<open>printHelp\<close>.
\<close>

theorem parseArgs_help:
  "(is_help_flag f \<longrightarrow>
      parseArgs h [prog, f] s
        = (if mainHasArgs h then Returned (s\<lparr>main_arg := main_arg s @ [f]\<rparr>)
           else Exited 0 (s\<lparr>main_arg := main_arg s @ [f],
                             out := out s @ AdditionalHelp # help_table_text @ [ConfigVarTable]\<rparr>)))
   \<and> ((\<forall>a \<in> set flags. plain_flag a \<and> \<not> is_about_flag a) \<and> (\<exists>a \<in> set flags. is_help_flag a)
        \<longrightarrow> (\<exists>s'. out s' = out s \<and> main_arg s' = main_arg s @ filter is_help_flag flags
                \<and> parseArgs h (prog # flags) s
                    = (if mainHasArgs h then Returned s'
                       else Exited 0 (s'\<lparr>out := out s @ AdditionalHelp # help_table_text
                                                  @ [ConfigVarTable]\<rparr>))))
   \<and> (mainHasArgs h \<longrightarrow>
         out (final_state (parseArgs h av s)) = out s
         \<or> out (final_state (parseArgs h av s)) = out s @ [ProgramAbout])
   \<and> ((\<exists>m ln fn s'. parseArgs h av s = Fatal m ln fn s' \<and> out s' = out s)
       \<or> (\<exists>s'. out s' = out s
            \<and> parseArgs h av s
                = (if \<exists>k \<in> set (iterations h (start_locals av s)). flag_at h is_about_flag k
                   then Exited 0 (s'\<lparr>out := out s @ [ProgramAbout]\<rparr>)
                   else if (\<exists>k \<in> set (iterations h (start_locals av s)). flag_at h is_help_flag k)
                           \<and> \<not> mainHasArgs h
                   then Exited 0 (s'\<lparr>out := out s @ AdditionalHelp # help_table_text
                                                @ [ConfigVarTable]\<rparr>)
                   else Returned s')))
   \<and> (flag_at h is_help_flag l \<longrightarrow>
         (\<exists>l'. parseArg h l = Inr l' \<and> idx l' = idx l + 1 \<and> printHelp l'
            \<and> rt l' = (rt l)\<lparr>main_arg := main_arg (rt l) @ [argv l ! idx l]\<rparr>))
   \<and> printConfigVarTable (printHelpTable s)
       = s\<lparr>out := out s @ AdditionalHelp # help_table_text @ [ConfigVarTable]\<rparr>
   \<and> chpl_program_about s = s\<lparr>out := out s @ [ProgramAbout]\<rparr>"
proof -
  have c1: "is_help_flag f \<longrightarrow>
      parseArgs h [prog, f] s
        = (if mainHasArgs h then Returned (s\<lparr>main_arg := main_arg s @ [f]\<rparr>)
           else Exited 0 (s\<lparr>main_arg := main_arg s @ [f],
                             out := out s @ AdditionalHelp # help_table_text @ [ConfigVarTable]\<rparr>))"
    using help_flag_alone [of f h prog s] by blast
  have c2: "(\<forall>a \<in> set flags. plain_flag a \<and> \<not> is_about_flag a) \<and> (\<exists>a \<in> set flags. is_help_flag a)
        \<longrightarrow> (\<exists>s'. out s' = out s \<and> main_arg s' = main_arg s @ filter is_help_flag flags
                \<and> parseArgs h (prog # flags) s
                    = (if mainHasArgs h then Returned s'
                       else Exited 0 (s'\<lparr>out := out s @ AdditionalHelp # help_table_text
                                                  @ [ConfigVarTable]\<rparr>)))"
    using help_among_plain_flags [of flags s h prog] by blast
  have c3: "mainHasArgs h \<longrightarrow>
         out (final_state (parseArgs h av s)) = out s
         \<or> out (final_state (parseArgs h av s)) = out s @ [ProgramAbout]"
    using no_help_when_main_has_args [of h av s] by blast
  note c4 = parseArgs_outcome [of h av s]
  have c5: "flag_at h is_help_flag l \<longrightarrow>
         (\<exists>l'. parseArg h l = Inr l' \<and> idx l' = idx l + 1 \<and> printHelp l'
            \<and> rt l' = (rt l)\<lparr>main_arg := main_arg (rt l) @ [argv l ! idx l]\<rparr>)"
    using help_flag_step [of h l] by blast
  note c6 = help_tables_state [of s]
  have c7: "chpl_program_about s = s\<lparr>out := out s @ [ProgramAbout]\<rparr>"
    by (simp add: chpl_program_about_def)
  show ?thesis
    by (intro conjI) (rule c1, rule c2, rule c3, rule c4, rule c5, rule c6, rule c7)
qed

theorem parseArgs_help_witness:
  "parseArgs (strict_hooks True no_enomem) [''prog'', ''-h''] state0
     = Returned (state0\<lparr>main_arg := [''prog'', ''-h'']\<rparr>)
   \<and> parseArgs (strict_hooks False no_enomem) [''prog'', ''--help''] state0
     = Exited 0 (state0\<lparr>main_arg := [''prog'', ''--help''],
                        out := AdditionalHelp # help_table_text @ [ConfigVarTable]\<rparr>)
   \<and> out (final_state (parseArgs (strict_hooks True no_enomem) [''prog'', ''-v'', ''-h''] state0))
     = []"
proof -
  have f1: "is_help_flag ''-h''" and f2: "is_help_flag ''--help''"
    by (simp_all add: is_help_flag_def)
  have m1: "mainHasArgs (strict_hooks True no_enomem)"
    and m2: "\<not> mainHasArgs (strict_hooks False no_enomem)"
    by (simp_all add: strict_hooks_def)
  have s: "main_arg state0 = [''prog'']" "out state0 = []"
    by (simp_all add: state0_def init_state_def)
  have p: "(\<forall>a \<in> set [''-v'', ''-h'']. plain_flag a \<and> \<not> is_about_flag a)
           \<and> (\<exists>a \<in> set [''-v'', ''-h'']. is_help_flag a)"
    by (simp add: plain_flag_def is_about_flag_def is_help_flag_def)
  note t1 = parseArgs_help [where h = "strict_hooks True no_enomem" and s = state0
      and f = "''-h''" and prog = "''prog''" and flags = "[''-v'', ''-h'']" and av = "[]"
      and l = "start_locals [] state0"]
  note t2 = parseArgs_help [where h = "strict_hooks False no_enomem" and s = state0
      and f = "''--help''" and prog = "''prog''" and flags = "[]" and av = "[]"
      and l = "start_locals [] state0"]
  have a: "parseArgs (strict_hooks True no_enomem) [''prog'', ''-h''] state0
     = Returned (state0\<lparr>main_arg := [''prog'', ''-h'']\<rparr>)"
    using t1 [THEN conjunct1] f1 m1 s by simp
  have b: "parseArgs (strict_hooks False no_enomem) [''prog'', ''--help''] state0
     = Exited 0 (state0\<lparr>main_arg := [''prog'', ''--help''],
                        out := AdditionalHelp # help_table_text @ [ConfigVarTable]\<rparr>)"
    using t2 [THEN conjunct1] f2 m2 s by simp
  obtain s' where "out s' = out state0"
      "parseArgs (strict_hooks True no_enomem) [''prog'', ''-v'', ''-h''] state0 = Returned s'"
    using t1 [THEN conjunct2, THEN conjunct1] p m1 by auto
  then have c: "out (final_state (parseArgs (strict_hooks True no_enomem)
      [''prog'', ''-v'', ''-h''] state0)) = []"
    using s by simp
  show ?thesis using a b c by blast
qed

text \<open>
  C10 as the specification words it fails: with an about flag among the arguments,
  \<open>parseArgs\<close> on \<open>-h\<close> exits, also when the program's main takes arguments.
\<close>

theorem parseArgs_about_after_help_exits:
  "parseArgs (strict_hooks True no_enomem) [''prog'', ''-h'', ''-a''] state0
     = Exited 0 (state0\<lparr>main_arg := [''prog'', ''-h''], out := [ProgramAbout]\<rparr>)"
  by (simp add: parseArgs_def start_locals_def parseLoop.simps parseArg_def next_arg_def
      short_flag_def Let_def push_main_arg_def chpl_program_about_def
      strict_hooks_def state0_def init_state_def)

section \<open>Properties of the task groups\<close>

lemma on_child_terminal_Inr:
  "on_child_terminal t outcome g = Inr g' \<Longrightarrow>
     (\<exists>st. status g t = Some st \<and> \<not> is_terminal st)
     \<and> counter g' = counter g + 1 \<and> expected g' = expected g \<and> unbounded g' = unbounded g
     \<and> members g' = members g
     \<and> errors g' = errors g @ failures [(t, outcome)]
     \<and> status g' = (status g)(t \<mapsto> terminal_state outcome)"
  unfolding on_child_terminal_def
  by (cases outcome) (auto split: option.splits if_splits simp: Let_def record_error_def)

lemma on_child_terminal_total:
  "status g t = Some st \<Longrightarrow> \<not> is_terminal st \<Longrightarrow> \<exists>g'. on_child_terminal t outcome g = Inr g'"
  unfolding on_child_terminal_def
  by (cases outcome) (auto simp: Let_def)

lemma failures_append: "failures (xs @ ys) = failures xs @ failures ys"
  by (induction xs rule: failures.induct) auto

lemma failures_mset:
  "mset (failures rs)
     = image_mset (\<lambda>r. case snd r of Failure e \<Rightarrow> e) (filter_mset (\<lambda>r. snd r \<noteq> Done) (mset rs))"
  by (induction rs rule: failures.induct) auto

lemma failures_length: "length (failures rs) = length (filter (\<lambda>r. snd r \<noteq> Done) rs)"
  by (induction rs rule: failures.induct) auto

lemma failures_none: "(\<forall>r \<in> set rs. snd r = Done) \<Longrightarrow> failures rs = []"
  by (induction rs rule: failures.induct) auto

lemma run_append:
  "run (evs @ evs') g = (case run evs g of Inl err \<Rightarrow> Inl err | Inr g' \<Rightarrow> run evs' g')"
  by (induction evs g rule: run.induct) (auto split: sum.splits)

lemma spawned_append: "spawned (evs @ evs') = spawned evs @ spawned evs'"
  by (induction evs rule: spawned.induct) auto

lemma reports_append: "reports (evs @ evs') = reports evs @ reports evs'"
  by (induction evs rule: reports.induct) auto

lemma run_total:
  "orderly evs live \<Longrightarrow> (\<forall>t \<in> set live. \<exists>st. status g t = Some st \<and> \<not> is_terminal st)
     \<Longrightarrow> \<exists>g'. run evs g = Inr g'"
proof (induction evs live arbitrary: g rule: orderly.induct)
  case (1 live)
  then show ?case by simp
next
  case (2 t evs live)
  have "\<forall>u \<in> set (t # live). \<exists>st. status (register_child t g) u = Some st \<and> \<not> is_terminal st"
    using "2.prems"(2) by (auto simp: register_child_def)
  then show ?case using "2.IH" [of "register_child t g"] "2.prems"(1) by simp
next
  case (3 t outcome evs live)
  obtain st where st: "status g t = Some st" "\<not> is_terminal st" using "3.prems" by auto
  obtain g1 where g1: "on_child_terminal t outcome g = Inr g1"
    using on_child_terminal_total [OF st] by blast
  have "status g1 = (status g)(t \<mapsto> terminal_state outcome)"
    using on_child_terminal_Inr [OF g1] by simp
  then have "\<forall>u \<in> set (removeAll t live). \<exists>st. status g1 u = Some st \<and> \<not> is_terminal st"
    using "3.prems"(2) by auto
  then show ?case using "3.IH" [of g1] "3.prems"(1) g1 by simp
qed

lemma map_of_snoc:
  "map_of (xs @ [(t, v)]) u
     = (case map_of xs u of Some w \<Rightarrow> Some w | None \<Rightarrow> if u = t then Some v else None)"
  by (simp add: map_add_def split: option.splits)

lemma terminal_state_terminal: "is_terminal (terminal_state outcome)"
  by (cases outcome) simp_all

lemma run_unbounded: "run evs g = Inr g' \<Longrightarrow> unbounded g' = unbounded g"
proof (induction evs g rule: run.induct)
  case (1 g)
  then show ?case by simp
next
  case (2 t evs g)
  then show ?case by (simp add: register_child_def)
next
  case (3 t outcome evs g)
  obtain g1 where g1: "on_child_terminal t outcome g = Inr g1" "run evs g1 = Inr g'"
    using "3.prems" by (auto split: sum.splits)
  have "unbounded g1 = unbounded g" using on_child_terminal_Inr [OF g1(1)] by simp
  then show ?case using "3.IH" [OF g1(1) g1(2)] by simp
qed

lemma run_facts:
  "distinct (spawned evs) \<Longrightarrow> run evs (open_group m) = Inr g \<Longrightarrow>
     members g = spawned evs
     \<and> counter g = length (reports evs)
     \<and> errors g = failures (reports evs)
     \<and> expected g = (case m of Fixed n \<Rightarrow> n | Unbounded \<Rightarrow> length (spawned evs))
     \<and> distinct (map fst (reports evs))
     \<and> set (map fst (reports evs)) \<subseteq> set (spawned evs)
     \<and> (\<forall>t. status g t = (case map_of (reports evs) t of
                             Some outcome \<Rightarrow> Some (terminal_state outcome)
                           | None \<Rightarrow> if t \<in> set (spawned evs) then Some Runnable else None))"
proof (induction evs arbitrary: g rule: rev_induct)
  case Nil
  then show ?case by (cases m) auto
next
  case (snoc ev evs)
  have d: "distinct (spawned evs)" using snoc.prems(1) by (simp add: spawned_append)
  obtain g1 where g1: "run evs (open_group m) = Inr g1" "run [ev] g1 = Inr g"
    using snoc.prems(2) by (auto simp: run_append split: sum.splits)
  note ih = snoc.IH [OF d g1(1)]
  have ub: "unbounded g1 = (m = Unbounded)"
    using run_unbounded [OF g1(1)] by (cases m) simp_all
  show ?case
  proof (cases ev)
    case (Spawn t)
    have g: "g = register_child t g1" using g1(2) Spawn by simp
    have nt: "t \<notin> set (spawned evs)" using snoc.prems(1) Spawn by (simp add: spawned_append)
    have nr: "map_of (reports evs) t = None"
      using nt ih by (auto simp: map_of_eq_None_iff)
    have s1: "spawned (evs @ [ev]) = spawned evs @ [t]" "reports (evs @ [ev]) = reports evs"
      using Spawn by (simp_all add: spawned_append reports_append)
    have "members g = spawned (evs @ [ev])" using g ih s1 by (simp add: register_child_def)
    moreover have "counter g = length (reports (evs @ [ev]))"
      using g ih s1 by (simp add: register_child_def)
    moreover have "errors g = failures (reports (evs @ [ev]))"
      using g ih s1 by (simp add: register_child_def)
    moreover have "expected g = (case m of Fixed n \<Rightarrow> n | Unbounded \<Rightarrow> length (spawned (evs @ [ev])))"
      using g ih s1 ub by (cases m) (simp_all add: register_child_def)
    moreover have "distinct (map fst (reports (evs @ [ev])))" using ih s1 by simp
    moreover have "set (map fst (reports (evs @ [ev]))) \<subseteq> set (spawned (evs @ [ev]))"
      using ih s1 by auto
    moreover have "\<forall>u. status g u = (case map_of (reports (evs @ [ev])) u of
                             Some outcome \<Rightarrow> Some (terminal_state outcome)
                           | None \<Rightarrow> if u \<in> set (spawned (evs @ [ev])) then Some Runnable else None)"
    proof
      fix u
      have "status g1 u = (case map_of (reports evs) u of
                             Some outcome \<Rightarrow> Some (terminal_state outcome)
                           | None \<Rightarrow> if u \<in> set (spawned evs) then Some Runnable else None)"
        using ih by blast
      then show "status g u = (case map_of (reports (evs @ [ev])) u of
                             Some outcome \<Rightarrow> Some (terminal_state outcome)
                           | None \<Rightarrow> if u \<in> set (spawned (evs @ [ev])) then Some Runnable else None)"
        using g nr s1 by (cases "u = t") (simp_all add: register_child_def split: option.splits)
    qed
    ultimately show ?thesis by blast
  next
    case (Report t outcome)
    have o: "on_child_terminal t outcome g1 = Inr g"
      using g1(2) Report by (simp split: sum.splits)
    note s = on_child_terminal_Inr [OF o]
    have s1: "spawned (evs @ [ev]) = spawned evs" "reports (evs @ [ev]) = reports evs @ [(t, outcome)]"
      using Report by (simp_all add: spawned_append reports_append)
    obtain st where st: "status g1 t = Some st" "\<not> is_terminal st" using s by blast
    have "status g1 t = (case map_of (reports evs) t of
                             Some outcome \<Rightarrow> Some (terminal_state outcome)
                           | None \<Rightarrow> if t \<in> set (spawned evs) then Some Runnable else None)"
      using ih by blast
    then have f: "Some st = (case map_of (reports evs) t of
                             Some outcome \<Rightarrow> Some (terminal_state outcome)
                           | None \<Rightarrow> if t \<in> set (spawned evs) then Some Runnable else None)"
      using st(1) by simp
    have nr: "map_of (reports evs) t = None"
    proof (cases "map_of (reports evs) t")
      case None
      then show ?thesis .
    next
      case (Some o')
      then have "st = terminal_state o'" using f by simp
      then show ?thesis using st(2) terminal_state_terminal by blast
    qed
    have sp: "t \<in> set (spawned evs)"
    proof (rule ccontr)
      assume "t \<notin> set (spawned evs)"
      then show False using f nr by simp
    qed
    have nt: "t \<notin> set (map fst (reports evs))" using nr by (simp add: map_of_eq_None_iff)
    have "members g = spawned (evs @ [ev])" using s ih s1 by simp
    moreover have "counter g = length (reports (evs @ [ev]))" using s ih s1 by simp
    moreover have "errors g = failures (reports (evs @ [ev]))"
      using s ih s1 by (simp add: failures_append)
    moreover have "expected g = (case m of Fixed n \<Rightarrow> n | Unbounded \<Rightarrow> length (spawned (evs @ [ev])))"
      using s ih s1 by (cases m) simp_all
    moreover have "distinct (map fst (reports (evs @ [ev])))" using ih s1 nt by simp
    moreover have "set (map fst (reports (evs @ [ev]))) \<subseteq> set (spawned (evs @ [ev]))"
      using ih s1 sp by auto
    moreover have "\<forall>u. status g u = (case map_of (reports (evs @ [ev])) u of
                             Some outcome \<Rightarrow> Some (terminal_state outcome)
                           | None \<Rightarrow> if u \<in> set (spawned (evs @ [ev])) then Some Runnable else None)"
    proof
      fix u
      have "status g1 u = (case map_of (reports evs) u of
                             Some outcome \<Rightarrow> Some (terminal_state outcome)
                           | None \<Rightarrow> if u \<in> set (spawned evs) then Some Runnable else None)"
        using ih by blast
      then show "status g u = (case map_of (reports (evs @ [ev])) u of
                             Some outcome \<Rightarrow> Some (terminal_state outcome)
                           | None \<Rightarrow> if u \<in> set (spawned (evs @ [ev])) then Some Runnable else None)"
        using s nr sp unfolding s1 map_of_snoc
        by (cases "u = t") (simp_all split: option.splits)
    qed
    ultimately show ?thesis by blast
  qed
qed

lemma complete_run:
  assumes d: "distinct (spawned evs)" and o: "orderly evs []"
    and p: "mset (map fst (reports evs)) = mset (spawned evs)"
    and m: "m = Unbounded \<or> m = Fixed (length (spawned evs))"
  shows "\<exists>g. run evs (open_group m) = Inr g
           \<and> counter g = length (spawned evs) \<and> expected g = length (spawned evs)
           \<and> errors g = failures (reports evs)"
proof -
  obtain g where g: "run evs (open_group m) = Inr g"
    using run_total [OF o, of "open_group m"] by auto
  note r = run_facts [OF d g]
  have le: "length (reports evs) = length (spawned evs)" using mset_eq_length [OF p] by simp
  have "counter g = length (spawned evs)" using r le by simp
  moreover have "expected g = length (spawned evs)" using r m by auto
  moreover have "errors g = failures (reports evs)" using r by simp
  ultimately show ?thesis using g by blast
qed

text \<open>
  C1. When every child of a group has reported once, the spawns and the reports arriving
  in whatever order, \<open>join\<close> raises one Error Group if a child failed, and what it
  carries is what \<open>drain\<close> yields: the errors of the failed children in the order of
  their reports, as many as there are failed children, equal errors side by side. Another
  order of arrival of the same reports gives the same errors with the same
  multiplicities. No report ends in a FatalRuntimeError.
\<close>

theorem group_error_surfaces_every_failure:
  assumes "distinct (spawned evs)" and "orderly evs []"
    and "mset (map fst (reports evs)) = mset (spawned evs)"
    and "m = Unbounded \<or> m = Fixed (length (spawned evs))"
  shows "\<exists>g. run evs (open_group m) = Inr g
           \<and> drain (errors g) = failures (reports evs)
           \<and> join g = Some (if failures (reports evs) = [] then ReturnsNormally
                            else Raises (failures (reports evs)))
           \<and> length (failures (reports evs)) = length (filter (\<lambda>r. snd r \<noteq> Done) (reports evs))
           \<and> (\<forall>evs'. mset (reports evs') = mset (reports evs)
                 \<longrightarrow> mset (failures (reports evs')) = mset (failures (reports evs)))"
proof -
  obtain g where g: "run evs (open_group m) = Inr g"
      "counter g = length (spawned evs)" "expected g = length (spawned evs)"
      "errors g = failures (reports evs)"
    using complete_run [OF assms] by blast
  have "join g = Some (if failures (reports evs) = [] then ReturnsNormally
                       else Raises (failures (reports evs)))"
    using g by (simp add: join_def drain_def)
  moreover have "\<forall>evs'. mset (reports evs') = mset (reports evs)
                 \<longrightarrow> mset (failures (reports evs')) = mset (failures (reports evs))"
    by (simp add: failures_mset)
  moreover have "drain (errors g) = failures (reports evs)" using g(4) by (simp add: drain_def)
  ultimately show ?thesis using g(1) failures_length [of "reports evs"] by blast
qed

theorem group_error_surfaces_every_failure_witness:
  "(\<exists>g. run [Spawn 1, Report 1 (Failure ''test error''), Spawn 2, Report 2 (Failure ''test error'')]
           (open_group Unbounded) = Inr g
         \<and> join g = Some (Raises [''test error'', ''test error'']))
   \<and> (\<exists>g. run [Spawn 1, Spawn 2, Report 2 (Failure ''test error''), Report 1 (Failure ''test error'')]
           (open_group (Fixed 2)) = Inr g
         \<and> join g = Some (Raises [''test error'', ''test error'']))"
proof -
  let ?a = "[Spawn 1, Report 1 (Failure ''test error''), Spawn 2, Report 2 (Failure ''test error'')]"
  let ?b = "[Spawn 1, Spawn 2, Report 2 (Failure ''test error''), Report 1 (Failure ''test error'')]"
  have a: "distinct (spawned ?a)" "orderly ?a []" "mset (map fst (reports ?a)) = mset (spawned ?a)"
    "Unbounded = Unbounded \<or> Unbounded = Fixed (length (spawned ?a))"
    by simp_all
  have b: "distinct (spawned ?b)" "orderly ?b []" "mset (map fst (reports ?b)) = mset (spawned ?b)"
    "Fixed 2 = Unbounded \<or> Fixed 2 = Fixed (length (spawned ?b))"
    by simp_all
  have fa: "failures (reports ?a) = [''test error'', ''test error'']" by simp
  have fb: "failures (reports ?b) = [''test error'', ''test error'']" by simp
  obtain g where g: "run ?a (open_group Unbounded) = Inr g"
     "join g = Some (if failures (reports ?a) = [] then ReturnsNormally
                     else Raises (failures (reports ?a)))"
    using group_error_surfaces_every_failure [OF a] by blast
  obtain g' where g': "run ?b (open_group (Fixed 2)) = Inr g'"
     "join g' = Some (if failures (reports ?b) = [] then ReturnsNormally
                     else Raises (failures (reports ?b)))"
    using group_error_surfaces_every_failure [OF b] by blast
  have "join g = Some (Raises [''test error'', ''test error''])" using g(2) unfolding fa by simp
  moreover have "join g' = Some (Raises [''test error'', ''test error''])"
    using g'(2) unfolding fb by simp
  ultimately show ?thesis using g(1) g'(1) by blast
qed

text \<open>
  C2. After any execution that the group accepts, with N children registered: the
  completion counter is at most N; while it is below N, \<open>join\<close> keeps the parent
  suspended; when \<open>join\<close> lets the parent go, the counter is N and every registered
  child is in a terminal state; and the errors recorded are those of all the failed
  reports, whatever the outcomes of the siblings. When every child has reported once, the
  group has accepted all the reports and \<open>join\<close> lets the parent go.
\<close>

theorem join_only_after_all_children:
  assumes d: "distinct (spawned evs)"
    and m: "m = Unbounded \<or> (\<exists>n. m = Fixed n \<and> length (spawned evs) \<le> n)"
  shows "(run evs (open_group m) = Inr g \<longrightarrow>
            counter g \<le> length (spawned evs)
            \<and> (counter g < length (spawned evs) \<longrightarrow> join g = None)
            \<and> (join g \<noteq> None \<longrightarrow>
                 counter g = length (spawned evs)
                 \<and> (\<forall>c \<in> set (spawned evs). \<exists>st. status g c = Some st \<and> is_terminal st))
            \<and> errors g = failures (reports evs))
       \<and> (orderly evs [] \<and> mset (map fst (reports evs)) = mset (spawned evs)
            \<and> (m = Unbounded \<or> m = Fixed (length (spawned evs)))
          \<longrightarrow> (\<exists>g'. run evs (open_group m) = Inr g'
                  \<and> counter g' = length (spawned evs) \<and> join g' \<noteq> None))"
proof (intro conjI impI)
  assume a: "orderly evs [] \<and> mset (map fst (reports evs)) = mset (spawned evs)
            \<and> (m = Unbounded \<or> m = Fixed (length (spawned evs)))"
  obtain g' where "run evs (open_group m) = Inr g'"
      "counter g' = length (spawned evs)" "expected g' = length (spawned evs)"
    using complete_run [OF d, of m] a by blast
  then show "\<exists>g'. run evs (open_group m) = Inr g'
                  \<and> counter g' = length (spawned evs) \<and> join g' \<noteq> None"
    by (auto simp: join_def Let_def)
next
  assume g: "run evs (open_group m) = Inr g"
  note r = run_facts [OF d g]
  have sub: "set (map fst (reports evs)) \<subseteq> set (spawned evs)" using r by blast
  have cnt: "counter g = length (reports evs)" using r by simp
  have ex: "length (spawned evs) \<le> expected g" using r m by auto
  have "length (reports evs) = card (set (map fst (reports evs)))"
    using r distinct_card [of "map fst (reports evs)"] by simp
  also have "\<dots> \<le> card (set (spawned evs))" using sub card_mono by blast
  also have "\<dots> = length (spawned evs)" using d distinct_card by blast
  finally have le: "length (reports evs) \<le> length (spawned evs)" .
  show "counter g \<le> length (spawned evs)" using cnt le by simp
  show "errors g = failures (reports evs)" using r by simp
  {
    assume "counter g < length (spawned evs)"
    then show "join g = None" using ex by (simp add: join_def)
  }
  {
    assume j: "join g \<noteq> None"
    then have "counter g = expected g" by (simp add: join_def split: if_splits)
    then have c: "counter g = length (spawned evs)" using ex cnt le by simp
    then have "card (set (map fst (reports evs))) = card (set (spawned evs))"
      using cnt r d distinct_card [of "map fst (reports evs)"] distinct_card [of "spawned evs"]
      by simp
    then have eq: "set (map fst (reports evs)) = set (spawned evs)"
      using sub card_subset_eq by blast
    show "counter g = length (spawned evs)" using c .
    show "\<forall>c \<in> set (spawned evs). \<exists>st. status g c = Some st \<and> is_terminal st"
    proof
      fix c assume "c \<in> set (spawned evs)"
      then have "c \<in> fst ` set (reports evs)" using eq by simp
      then obtain outcome where "(c, outcome) \<in> set (reports evs)" by force
      then have "map_of (reports evs) c = Some outcome" using r map_of_is_SomeI by fast
      then have "status g c = Some (terminal_state outcome)" using r by simp
      then show "\<exists>st. status g c = Some st \<and> is_terminal st"
        using terminal_state_terminal by blast
    qed
  }
qed

theorem join_only_after_all_children_witness:
  "(\<exists>g. run [Spawn 7, Spawn 8, Report 7 (Failure ''E1'')] (open_group Unbounded) = Inr g
        \<and> counter g = 1 \<and> join g = None)
   \<and> (\<exists>g :: string task_group. run [Spawn 7, Report 7 (Failure ''E1''), Spawn 8, Report 8 Done]
          (open_group Unbounded) = Inr g
        \<and> counter g = 2 \<and> join g \<noteq> None)"
proof -
  let ?a = "[Spawn 7, Spawn 8, Report 7 (Failure ''E1'')]"
  let ?b = "[Spawn 7, Report 7 (Failure ''E1''), Spawn 8, Report 8 Done] :: string event list"
  have da: "distinct (spawned ?a)" and db: "distinct (spawned ?b)" by simp_all
  have ma: "Unbounded = Unbounded \<or> (\<exists>n. Unbounded = Fixed n \<and> length (spawned ?a) \<le> n)"
    and mb: "Unbounded = Unbounded \<or> (\<exists>n. Unbounded = Fixed n \<and> length (spawned ?b) \<le> n)"
    by simp_all
  have oa: "orderly ?a []" by simp
  obtain g1 :: "string task_group" where g1: "run ?a (open_group Unbounded) = Inr g1"
    using run_total [OF oa, of "open_group Unbounded"] by auto
  have c1: "counter g1 = 1" using run_facts [OF da g1] by simp
  have la: "length (spawned ?a) = 2" by simp
  have "join g1 = None"
    using join_only_after_all_children [OF da ma, where g = g1] g1 c1 unfolding la by simp
  moreover have "\<exists>g :: string task_group. run ?b (open_group Unbounded) = Inr g
        \<and> counter g = 2 \<and> join g \<noteq> None"
  proof -
    have h: "orderly ?b [] \<and> mset (map fst (reports ?b)) = mset (spawned ?b)
            \<and> (Unbounded = Unbounded \<or> Unbounded = Fixed (length (spawned ?b)))"
      by simp
    have lb: "length (spawned ?b) = 2" by simp
    show ?thesis
      using join_only_after_all_children [OF db mb, where g = g1] h unfolding lb by blast
  qed
  ultimately show ?thesis using g1 c1 by blast
qed

text \<open>
  C3. A group opened with zero expected children joins at once and normally. A group all
  of whose children completed without a failure joins normally, and the Error Aggregator
  drains to the empty sequence.
\<close>

theorem join_without_failures:
  "join (open_group (Fixed 0)) = Some ReturnsNormally
   \<and> join (open_group Unbounded) = Some ReturnsNormally
   \<and> (distinct (spawned evs) \<and> orderly evs []
        \<and> mset (map fst (reports evs)) = mset (spawned evs)
        \<and> (m = Unbounded \<or> m = Fixed (length (spawned evs)))
        \<and> (\<forall>r \<in> set (reports evs). snd r = Done)
      \<longrightarrow> (\<exists>g. run evs (open_group m) = Inr g
               \<and> join g = Some ReturnsNormally \<and> drain (errors g) = []))"
proof (intro conjI impI)
  show "join (open_group (Fixed 0)) = Some ReturnsNormally" by (simp add: join_def drain_def)
  show "join (open_group Unbounded) = Some ReturnsNormally" by (simp add: join_def drain_def)
  assume a: "distinct (spawned evs) \<and> orderly evs []
        \<and> mset (map fst (reports evs)) = mset (spawned evs)
        \<and> (m = Unbounded \<or> m = Fixed (length (spawned evs)))
        \<and> (\<forall>r \<in> set (reports evs). snd r = Done)"
  then obtain g where g: "run evs (open_group m) = Inr g"
      "counter g = length (spawned evs)" "expected g = length (spawned evs)"
      "errors g = failures (reports evs)"
    using complete_run [of evs m] by blast
  have "failures (reports evs) = []" using a failures_none by blast
  then show "\<exists>g. run evs (open_group m) = Inr g
               \<and> join g = Some ReturnsNormally \<and> drain (errors g) = []"
    using g by (auto simp: join_def drain_def)
qed

theorem join_without_failures_witness:
  "(\<exists>g. run [Spawn 1, Spawn 2, Report 2 Done, Report 1 Done] (open_group (Fixed 2)) = Inr g
         \<and> join g = Some (ReturnsNormally :: string join_result) \<and> drain (errors g) = [])"
proof -
  let ?a = "[Spawn 1, Spawn 2, Report 2 Done, Report 1 Done] :: string event list"
  have "distinct (spawned ?a) \<and> orderly ?a []
        \<and> mset (map fst (reports ?a)) = mset (spawned ?a)
        \<and> (Fixed 2 = Unbounded \<or> Fixed 2 = Fixed (length (spawned ?a)))
        \<and> (\<forall>r \<in> set (reports ?a). snd r = Done)"
    by simp
  then show ?thesis
    using join_without_failures [where evs = ?a and m = "Fixed 2"] by blast
qed

end
